theory Spec2Isabelle
  imports Main "HOL-Library.Word"
begin

section \<open>Data model of stats.h and stats.c\<close>

text \<open>
  Pointers (\<^verbatim>\<open>char *\<close>, \<^verbatim>\<open>TaskHandle_t\<close>) are only ever compared for equality
  and against \<^verbatim>\<open>NULL\<close>, so an address is a natural number and \<^verbatim>\<open>NULL\<close> is 0.
  The target is the ESP32 (ILP32): \<^verbatim>\<open>uint32_t\<close> and \<^verbatim>\<open>unsigned long\<close> are 32 bits
  wide, \<^verbatim>\<open>uint64_t\<close> and \<^verbatim>\<open>int64_t\<close> 64 bits.
\<close>

type_synonym addr = nat

abbreviation (input) NULL :: addr where
  "NULL \<equiv> 0"

type_synonym uint8_t = "8 word"

type_synonym uint32_t = "32 word"

type_synonym uint64_t = "64 word"

type_synonym int64_t = "64 word"

datatype stats_measure_state_t = STATS_MEASURE_STOP | STATS_MEASURE_START

record stats_run_time_t =
  name :: string
  time :: int64_t
  start :: int64_t
  state :: stats_measure_state_t

record accumulated_info_t =
  task_name :: addr
  time :: uint64_t
  is_running :: bool

text \<open>The fields of FreeRTOS's \<^verbatim>\<open>TaskStatus_t\<close> that stats.c reads or writes.\<close>

record TaskStatus_t =
  xHandle :: addr
  pcTaskName :: addr
  ulRunTimeCounter :: uint32_t

datatype esp_err_t = ESP_OK | ESP_ERR_NO_MEM | ESP_ERR_INVALID_SIZE | ESP_ERR_INVALID_STATE

text \<open>
  What the code writes: the lines of \<^verbatim>\<open>ESP_LOGE\<close> and \<^verbatim>\<open>ESP_LOGI\<close>, and the lines
  that \<^verbatim>\<open>print_real_time_stats\<close> prints. A row carries the arguments of its
  \<^verbatim>\<open>printf\<close>: the name pointer, the run time of the window, the accumulated run time
  and the percentage.
\<close>

datatype output_line =
    ESP_LOGE string
  | ESP_LOGI string
  | Header
  | Separator
  | Row addr uint32_t uint64_t uint32_t
  | Deleted addr
  | Created addr

text \<open>
  Undefined behaviour that the code can reach: reading through the \<^verbatim>\<open>NULL\<close> that
  \<^verbatim>\<open>get_accumulated_info\<close> returns, and an unsigned division by zero.
\<close>

datatype fault = NullDereference | DivideByZero

text \<open>The static table \<^verbatim>\<open>s_accumulated_infos\<close> and the lines written so far.\<close>

record stats_state =
  s_accumulated_infos :: "accumulated_info_t list"
  console :: "output_line list"

definition ACCUMULATED_INFO_NUM :: nat where
  "ACCUMULATED_INFO_NUM = 16"

text \<open>
  What one call of \<^verbatim>\<open>malloc\<close> followed by \<^verbatim>\<open>uxTaskGetSystemState\<close> gives: whether the
  allocation succeeded, the entries written (their number is the call's return value,
  0 when the array was too small) and the total run time.
\<close>

record snapshot =
  malloc_ok :: bool
  tasks :: "TaskStatus_t list"
  run_time :: uint32_t

section \<open>The accumulator table\<close>

function reset_loop :: "nat \<Rightarrow> accumulated_info_t list \<Rightarrow> accumulated_info_t list" where
  "reset_loop i tbl =
     (if i < ACCUMULATED_INFO_NUM
      then reset_loop (i + 1)
             (tbl[i := (tbl ! i)\<lparr>task_name := NULL, time := 0, is_running := False\<rparr>])
      else tbl)"
  by pat_completeness auto
termination
  by (relation "measure (\<lambda>(i, tbl). ACCUMULATED_INFO_NUM - i)") auto

definition stats_reset_accumulated_infos :: "stats_state \<Rightarrow> stats_state" where
  "stats_reset_accumulated_infos s =
     s\<lparr>s_accumulated_infos := reset_loop 0 (s_accumulated_infos s),
       console := console s @ [ESP_LOGI ''reseted accumulated infos'']\<rparr>"

text \<open>
  The loop of \<^verbatim>\<open>set_accumulated_info\<close> with the code after it: \<open>dst_idx\<close> is the
  \<^verbatim>\<open>uint8_t\<close> of the source, 255 while no free slot has been seen.
\<close>

function set_accumulated_info_loop ::
  "accumulated_info_t \<Rightarrow> nat \<Rightarrow> uint8_t \<Rightarrow> stats_state \<Rightarrow> stats_state" where
  "set_accumulated_info_loop info i dst_idx s =
     (if i < ACCUMULATED_INFO_NUM then
        (if task_name (s_accumulated_infos s ! i) = task_name info then
           s\<lparr>s_accumulated_infos := (s_accumulated_infos s)
               [i := (s_accumulated_infos s ! i)
                  \<lparr>time := time (s_accumulated_infos s ! i) + time info, is_running := True\<rparr>]\<rparr>
         else if task_name (s_accumulated_infos s ! i) = NULL \<and> dst_idx = 255 then
           set_accumulated_info_loop info (i + 1) (of_nat i) s
         else set_accumulated_info_loop info (i + 1) dst_idx s)
      else if dst_idx = 255 then
        s\<lparr>console := console s @ [ESP_LOGE ''error: accumulated info's buffer is full'']\<rparr>
      else
        s\<lparr>s_accumulated_infos := (s_accumulated_infos s)
            [unat dst_idx := (s_accumulated_infos s ! unat dst_idx)
               \<lparr>task_name := task_name info, time := time info, is_running := True\<rparr>]\<rparr>)"
  by pat_completeness auto
termination
  by (relation "measure (\<lambda>(info, i, dst_idx, s). ACCUMULATED_INFO_NUM - i)") auto

definition set_accumulated_info :: "accumulated_info_t \<Rightarrow> stats_state \<Rightarrow> stats_state" where
  "set_accumulated_info info s = set_accumulated_info_loop info 0 255 s"

text \<open>The result is the index of the slot whose address the code returns, or \<open>None\<close> for \<^verbatim>\<open>NULL\<close>.\<close>

function get_accumulated_info_loop :: "addr \<Rightarrow> nat \<Rightarrow> accumulated_info_t list \<Rightarrow> nat option" where
  "get_accumulated_info_loop nm i tbl =
     (if i < ACCUMULATED_INFO_NUM then
        (if task_name (tbl ! i) = nm then Some i
         else get_accumulated_info_loop nm (i + 1) tbl)
      else None)"
  by pat_completeness auto
termination
  by (relation "measure (\<lambda>(nm, i, tbl). ACCUMULATED_INFO_NUM - i)") auto

definition get_accumulated_info :: "addr \<Rightarrow> stats_state \<Rightarrow> nat option" where
  "get_accumulated_info nm s = get_accumulated_info_loop nm 0 (s_accumulated_infos s)"

function end_calc_loop :: "nat \<Rightarrow> accumulated_info_t list \<Rightarrow> accumulated_info_t list" where
  "end_calc_loop i tbl =
     (if i < ACCUMULATED_INFO_NUM then
        (if \<not> is_running (tbl ! i)
         then end_calc_loop (i + 1) (tbl[i := (tbl ! i)\<lparr>task_name := NULL, time := 0\<rparr>])
         else end_calc_loop (i + 1) (tbl[i := (tbl ! i)\<lparr>is_running := False\<rparr>]))
      else tbl)"
  by pat_completeness auto
termination
  by (relation "measure (\<lambda>(i, tbl). ACCUMULATED_INFO_NUM - i)") auto

definition end_calc_accumulated_info :: "stats_state \<Rightarrow> stats_state" where
  "end_calc_accumulated_info s =
     s\<lparr>s_accumulated_infos := end_calc_loop 0 (s_accumulated_infos s)\<rparr>"

section \<open>The reconciliation pass\<close>

text \<open>
  The inner loop of \<^verbatim>\<open>print_real_time_stats\<close>: the first \<open>j\<close> whose handle equals that
  of \<open>start_array[i]\<close>, with both handles overwritten by \<^verbatim>\<open>NULL\<close>; \<open>k\<close> stays -1
  when there is none.
\<close>

function match_loop ::
  "TaskStatus_t list \<Rightarrow> TaskStatus_t list \<Rightarrow> nat \<Rightarrow> nat \<Rightarrow> nat
     \<Rightarrow> int \<times> TaskStatus_t list \<times> TaskStatus_t list" where
  "match_loop start_array end_array end_array_size i j =
     (if j < end_array_size then
        (if xHandle (start_array ! i) = xHandle (end_array ! j)
         then (int j,
               start_array[i := (start_array ! i)\<lparr>xHandle := NULL\<rparr>],
               end_array[j := (end_array ! j)\<lparr>xHandle := NULL\<rparr>])
         else match_loop start_array end_array end_array_size i (j + 1))
      else (- 1, start_array, end_array))"
  by pat_completeness auto
termination
  by (relation "measure (\<lambda>(start_array, end_array, end_array_size, i, j). end_array_size - j)") auto

text \<open>
  The outer loop. \<open>num_processors\<close> is \<^verbatim>\<open>portNUM_PROCESSORS\<close>, a macro of the FreeRTOS
  port. Both products are of 32-bit unsigned values and wrap around.
\<close>

function stats_loop ::
  "uint32_t \<Rightarrow> uint32_t \<Rightarrow> nat \<Rightarrow> nat \<Rightarrow> TaskStatus_t list \<Rightarrow> TaskStatus_t list \<Rightarrow> nat
     \<Rightarrow> stats_state \<Rightarrow> fault + (TaskStatus_t list \<times> TaskStatus_t list \<times> stats_state)" where
  "stats_loop num_processors total_elapsed_time start_array_size end_array_size
       start_array end_array i s =
     (if i < start_array_size then
        (case match_loop start_array end_array end_array_size i 0 of
           (k, start_array', end_array') \<Rightarrow>
             if k \<ge> 0 then
               (let task_elapsed_time =
                      ulRunTimeCounter (end_array' ! nat k) - ulRunTimeCounter (start_array' ! i)
                in if total_elapsed_time * num_processors = 0 then Inl DivideByZero
                   else
                     (let percentage_time =
                            (task_elapsed_time * 100) div (total_elapsed_time * num_processors);
                          buf = \<lparr>task_name = pcTaskName (start_array' ! i),
                                 time = ucast task_elapsed_time, is_running = False\<rparr>;
                          s' = set_accumulated_info buf s
                      in case get_accumulated_info (pcTaskName (start_array' ! i)) s' of
                           None \<Rightarrow> Inl NullDereference
                         | Some res \<Rightarrow>
                             stats_loop num_processors total_elapsed_time
                               start_array_size end_array_size start_array' end_array' (i + 1)
                               (s'\<lparr>console := console s' @
                                   [Row (pcTaskName (start_array' ! i)) task_elapsed_time
                                      (time (s_accumulated_infos s' ! res)) percentage_time]\<rparr>)))
             else stats_loop num_processors total_elapsed_time
                    start_array_size end_array_size start_array' end_array' (i + 1) s)
      else Inr (start_array, end_array, s))"
  by pat_completeness auto
termination
  by (relation "measure (\<lambda>(num_processors, total_elapsed_time, start_array_size, end_array_size,
         start_array, end_array, i, s). start_array_size - i)") auto

text \<open>The two loops that print the entries whose handle was not overwritten.\<close>

fun print_unmatched :: "(addr \<Rightarrow> output_line) \<Rightarrow> TaskStatus_t list \<Rightarrow> output_line list" where
  "print_unmatched line [] = []"
| "print_unmatched line (t # ts) =
     (if xHandle t \<noteq> NULL then line (pcTaskName t) # print_unmatched line ts
      else print_unmatched line ts)"

text \<open>
  \<^verbatim>\<open>print_real_time_stats\<close>. What the scheduler and the allocator give between the two
  calls of \<^verbatim>\<open>uxTaskGetSystemState\<close> is the pair of snapshots; \<^verbatim>\<open>xTicksToWait\<close> only sets
  the delay between them. The two \<^verbatim>\<open>free\<close> calls of the common exit have no effect on the
  table or the output. A fault ends the pass where it happens.
\<close>

definition print_real_time_stats ::
  "uint32_t \<Rightarrow> snapshot \<Rightarrow> snapshot \<Rightarrow> stats_state \<Rightarrow> fault + (esp_err_t \<times> stats_state)" where
  "print_real_time_stats num_processors start_snapshot end_snapshot s =
     (if \<not> malloc_ok start_snapshot then Inr (ESP_ERR_NO_MEM, s)
      else if length (tasks start_snapshot) = 0 then Inr (ESP_ERR_INVALID_SIZE, s)
      else if \<not> malloc_ok end_snapshot then Inr (ESP_ERR_NO_MEM, s)
      else if length (tasks end_snapshot) = 0 then Inr (ESP_ERR_INVALID_SIZE, s)
      else if run_time end_snapshot - run_time start_snapshot = 0
        then Inr (ESP_ERR_INVALID_STATE, s)
      else
        (case stats_loop num_processors (run_time end_snapshot - run_time start_snapshot)
                (length (tasks start_snapshot)) (length (tasks end_snapshot))
                (tasks start_snapshot) (tasks end_snapshot) 0
                (s\<lparr>console := console s @ [Header, Separator]\<rparr>) of
           Inl f \<Rightarrow> Inl f
         | Inr (start_array, end_array, s') \<Rightarrow>
             Inr (ESP_OK,
                  end_calc_accumulated_info
                    (s'\<lparr>console := console s' @ print_unmatched Deleted start_array
                                           @ print_unmatched Created end_array\<rparr>))))"

section \<open>The stopwatch\<close>

text \<open>
  A handler is \<open>None\<close> for \<^verbatim>\<open>NULL\<close>; \<open>now\<close> is what \<^verbatim>\<open>esp_timer_get_time\<close> returns.
  Each function gives the handler after the call and the lines it logged.
\<close>

definition stats_run_time_start ::
  "stats_run_time_t option \<Rightarrow> int64_t \<Rightarrow> stats_run_time_t option \<times> output_line list" where
  "stats_run_time_start handler now =
     (case handler of
        None \<Rightarrow> (None, [ESP_LOGE ''handler is NULL''])
      | Some h \<Rightarrow>
          if state h = STATS_MEASURE_START
          then (Some h, [ESP_LOGE ''run time measurement is already started''])
          else (Some (h\<lparr>state := STATS_MEASURE_START, start := now\<rparr>), []))"

definition stats_run_time_stop ::
  "stats_run_time_t option \<Rightarrow> int64_t \<Rightarrow> stats_run_time_t option \<times> output_line list" where
  "stats_run_time_stop handler now =
     (case handler of
        None \<Rightarrow> (None, [ESP_LOGE ''handler is NULL''])
      | Some h \<Rightarrow>
          if state h = STATS_MEASURE_STOP
          then (Some h, [ESP_LOGE ''run time measurement is not started''])
          else (Some (h\<lparr>state := STATS_MEASURE_STOP,
                        stats_run_time_t.time := stats_run_time_t.time h + (now - start h)\<rparr>), []))"

section \<open>Notions used to state the properties\<close>

text \<open>
  No two slots of the table hold the same name, \<^verbatim>\<open>NULL\<close> (the mark of a free slot)
  apart.
\<close>

definition unique_names :: "accumulated_info_t list \<Rightarrow> bool" where
  "unique_names tbl \<longleftrightarrow>
     (\<forall>i<length tbl. \<forall>j<length tbl.
        task_name (tbl ! i) = task_name (tbl ! j) \<and> task_name (tbl ! i) \<noteq> NULL \<longrightarrow> i = j)"

text \<open>
  \<open>consume H t\<close> is the entry \<open>t\<close> after the matching loop when \<open>H\<close> are the handles
  of the other snapshot: its handle is overwritten when it occurs there. \<open>row_of\<close>
  relates an entry of the start snapshot to the row printed for it: the entry of the end
  snapshot with the same handle gives the run time of the window, and the percentage is
  the quotient of the two 32-bit products.
\<close>

definition consume :: "addr set \<Rightarrow> TaskStatus_t \<Rightarrow> TaskStatus_t" where
  "consume H t = (if xHandle t \<in> H then t\<lparr>xHandle := NULL\<rparr> else t)"

definition row_of :: "uint32_t \<Rightarrow> TaskStatus_t list \<Rightarrow> TaskStatus_t \<Rightarrow> output_line \<Rightarrow> bool" where
  "row_of divisor E t r \<longleftrightarrow>
     (\<exists>u\<in>set E. xHandle u = xHandle t \<and>
        (\<exists>acc. r = Row (pcTaskName t) (ulRunTimeCounter u - ulRunTimeCounter t) acc
                    ((ulRunTimeCounter u - ulRunTimeCounter t) * 100 div divisor)))"

text \<open>The number of free slots of the table.\<close>

definition free_slots :: "accumulated_info_t list \<Rightarrow> nat" where
  "free_slots tbl = card {i. i < ACCUMULATED_INFO_NUM \<and> task_name (tbl ! i) = NULL}"

text \<open>
  The names a pass has to add to the table: those of the entries of the start snapshot
  whose handle occurs in the end snapshot, the names the table holds apart.
\<close>

definition new_names :: "TaskStatus_t list \<Rightarrow> TaskStatus_t list \<Rightarrow> accumulated_info_t list \<Rightarrow> addr set" where
  "new_names S E tbl =
     pcTaskName ` {t \<in> set S. xHandle t \<in> xHandle ` set E} - task_name ` set tbl"

text \<open>
  The states the program can be in: the table starts zero-initialised, and is written by the
  reset, by \<^verbatim>\<open>set_accumulated_info\<close> and by \<^verbatim>\<open>end_calc_accumulated_info\<close> only.
\<close>

inductive reachable :: "stats_state \<Rightarrow> bool" where
  reach_initial: "reachable
     \<lparr>s_accumulated_infos =
        replicate ACCUMULATED_INFO_NUM \<lparr>task_name = NULL, time = 0, is_running = False\<rparr>,
      console = []\<rparr>"
| reach_reset: "reachable s \<Longrightarrow> reachable (stats_reset_accumulated_infos s)"
| reach_record: "reachable s \<Longrightarrow> reachable (set_accumulated_info info s)"
| reach_end_pass: "reachable s \<Longrightarrow> reachable (end_calc_accumulated_info s)"
| reach_written: "reachable s \<Longrightarrow> reachable (s\<lparr>console := c\<rparr>)"

section \<open>The loops of the accumulator table\<close>

declare reset_loop.simps [simp del] set_accumulated_info_loop.simps [simp del]
  get_accumulated_info_loop.simps [simp del] end_calc_loop.simps [simp del]
  match_loop.simps [simp del] stats_loop.simps [simp del]

lemma all_from_Suc:
  "(\<forall>j. i \<le> j \<and> j < n \<longrightarrow> Q j) \<longleftrightarrow> (i < n \<longrightarrow> Q i) \<and> (\<forall>j. Suc i \<le> j \<and> j < n \<longrightarrow> Q j)"
  by (metis Suc_leD Suc_le_eq le_neq_implies_less order_refl less_le_trans)

lemma length_reset_loop: "length (reset_loop i tbl) = length tbl"
  by (induction i tbl rule: reset_loop.induct) (subst reset_loop.simps, simp)

lemma nth_reset_loop:
  "j < length tbl \<Longrightarrow> reset_loop i tbl ! j =
     (if i \<le> j \<and> j < ACCUMULATED_INFO_NUM
      then \<lparr>task_name = NULL, time = 0, is_running = False\<rparr> else tbl ! j)"
proof (induction i tbl rule: reset_loop.induct)
  case (1 i tbl)
  show ?case
  proof (cases "i < ACCUMULATED_INFO_NUM")
    case True
    with 1 show ?thesis
      by (subst reset_loop.simps) (cases "j = i", auto)
  next
    case False
    then show ?thesis by (subst reset_loop.simps) auto
  qed
qed

lemma length_end_calc_loop: "length (end_calc_loop i tbl) = length tbl"
  by (induction i tbl rule: end_calc_loop.induct) (subst end_calc_loop.simps, simp)

lemma nth_end_calc_loop:
  "j < length tbl \<Longrightarrow> end_calc_loop i tbl ! j =
     (if i \<le> j \<and> j < ACCUMULATED_INFO_NUM
      then (if is_running (tbl ! j) then (tbl ! j)\<lparr>is_running := False\<rparr>
            else (tbl ! j)\<lparr>task_name := NULL, time := 0\<rparr>)
      else tbl ! j)"
proof (induction i tbl rule: end_calc_loop.induct)
  case (1 i tbl)
  show ?case
  proof (cases "i < ACCUMULATED_INFO_NUM")
    case True
    with 1 show ?thesis
      by (subst end_calc_loop.simps) (cases "j = i", auto)
  next
    case False
    then show ?thesis by (subst end_calc_loop.simps) auto
  qed
qed

lemma get_loop_Some:
  "get_accumulated_info_loop nm i tbl = Some k \<longleftrightarrow>
     i \<le> k \<and> k < ACCUMULATED_INFO_NUM \<and> task_name (tbl ! k) = nm \<and>
     (\<forall>j. i \<le> j \<and> j < k \<longrightarrow> task_name (tbl ! j) \<noteq> nm)"
proof (induction nm i tbl rule: get_accumulated_info_loop.induct)
  case (1 nm i tbl)
  show ?case
  proof (cases "i < ACCUMULATED_INFO_NUM")
    case False
    then show ?thesis by (subst get_accumulated_info_loop.simps) auto
  next
    case lt: True
    show ?thesis
    proof (cases "task_name (tbl ! i) = nm")
      case True
      have "(i = k) \<longleftrightarrow> i \<le> k \<and> k < ACCUMULATED_INFO_NUM \<and> task_name (tbl ! k) = nm \<and>
              (\<forall>j. i \<le> j \<and> j < k \<longrightarrow> task_name (tbl ! j) \<noteq> nm)" (is "_ \<longleftrightarrow> ?R")
      proof
        assume "i = k"
        with True lt show ?R by auto
      next
        assume r: ?R
        show "i = k"
        proof (rule ccontr)
          assume "i \<noteq> k"
          with r have "i \<le> i \<and> i < k" by simp
          with r True show False by blast
        qed
      qed
      with True lt show ?thesis
        by (subst get_accumulated_info_loop.simps) simp
    next
      case False
      have "get_accumulated_info_loop nm i tbl = get_accumulated_info_loop nm (i + 1) tbl"
        using False lt by (subst get_accumulated_info_loop.simps) simp
      also have "\<dots> = Some k \<longleftrightarrow> Suc i \<le> k \<and> k < ACCUMULATED_INFO_NUM \<and> task_name (tbl ! k) = nm \<and>
              (\<forall>j. Suc i \<le> j \<and> j < k \<longrightarrow> task_name (tbl ! j) \<noteq> nm)"
        using 1 [OF lt False] by simp
      also have "\<dots> \<longleftrightarrow> i \<le> k \<and> k < ACCUMULATED_INFO_NUM \<and> task_name (tbl ! k) = nm \<and>
              (\<forall>j. i \<le> j \<and> j < k \<longrightarrow> task_name (tbl ! j) \<noteq> nm)"
        using False by (subst (2) all_from_Suc) (metis Suc_le_eq le_neq_implies_less Suc_leD)
      finally show ?thesis .
    qed
  qed
qed

lemma get_loop_None:
  "get_accumulated_info_loop nm i tbl = None \<longleftrightarrow>
     (\<forall>j. i \<le> j \<and> j < ACCUMULATED_INFO_NUM \<longrightarrow> task_name (tbl ! j) \<noteq> nm)"
proof (induction nm i tbl rule: get_accumulated_info_loop.induct)
  case (1 nm i tbl)
  show ?case
  proof (cases "i < ACCUMULATED_INFO_NUM")
    case False
    then show ?thesis by (subst get_accumulated_info_loop.simps) auto
  next
    case lt: True
    show ?thesis
    proof (cases "task_name (tbl ! i) = nm")
      case True
      with lt show ?thesis
        by (subst get_accumulated_info_loop.simps) auto
    next
      case False
      with lt 1 show ?thesis
        by (subst get_accumulated_info_loop.simps, subst all_from_Suc) simp
    qed
  qed
qed

lemma set_loop_found:
  "i \<le> k \<Longrightarrow> k < ACCUMULATED_INFO_NUM \<Longrightarrow>
   task_name (s_accumulated_infos s ! k) = task_name info \<Longrightarrow>
   (\<forall>j. i \<le> j \<and> j < k \<longrightarrow> task_name (s_accumulated_infos s ! j) \<noteq> task_name info) \<Longrightarrow>
   set_accumulated_info_loop info i dst_idx s =
     s\<lparr>s_accumulated_infos := (s_accumulated_infos s)
        [k := (s_accumulated_infos s ! k)
           \<lparr>time := time (s_accumulated_infos s ! k) + time info, is_running := True\<rparr>]\<rparr>"
proof (induction info i dst_idx s rule: set_accumulated_info_loop.induct)
  case (1 info i dst_idx s)
  show ?case
  proof (cases "i = k")
    case True
    with 1 show ?thesis
      by (subst set_accumulated_info_loop.simps) simp
  next
    case False
    with 1(3) have lt: "i < k" "i + 1 \<le> k" by simp_all
    with 1(4) have i: "i < ACCUMULATED_INFO_NUM" by simp
    from lt 1(6) have ne: "task_name (s_accumulated_infos s ! i) \<noteq> task_name info" by simp
    from 1(6) have rest: "\<forall>j. i + 1 \<le> j \<and> j < k \<longrightarrow>
        task_name (s_accumulated_infos s ! j) \<noteq> task_name info" by simp
    show ?thesis
      using 1(1) [OF i ne _ lt(2) 1(4) 1(5) rest] 1(2) [OF i ne _ lt(2) 1(4) 1(5) rest] i ne
      by (subst set_accumulated_info_loop.simps) simp
  qed
qed

lemma set_loop_absent_dst:
  "(\<forall>j. i \<le> j \<and> j < ACCUMULATED_INFO_NUM \<longrightarrow>
      task_name (s_accumulated_infos s ! j) \<noteq> task_name info) \<Longrightarrow>
   dst_idx \<noteq> 255 \<Longrightarrow>
   set_accumulated_info_loop info i dst_idx s =
     s\<lparr>s_accumulated_infos := (s_accumulated_infos s)
        [unat dst_idx := (s_accumulated_infos s ! unat dst_idx)
           \<lparr>task_name := task_name info, time := time info, is_running := True\<rparr>]\<rparr>"
proof (induction info i dst_idx s rule: set_accumulated_info_loop.induct)
  case (1 info i dst_idx s)
  show ?case
  proof (cases "i < ACCUMULATED_INFO_NUM")
    case False
    with 1(4) show ?thesis
      by (subst set_accumulated_info_loop.simps) simp
  next
    case True
    with 1(3) have ne: "task_name (s_accumulated_infos s ! i) \<noteq> task_name info" by simp
    from 1(3) have rest: "\<forall>j. i + 1 \<le> j \<and> j < ACCUMULATED_INFO_NUM \<longrightarrow>
        task_name (s_accumulated_infos s ! j) \<noteq> task_name info" by simp
    have "\<not> (task_name (s_accumulated_infos s ! i) = NULL \<and> dst_idx = 255)"
      using 1(4) by simp
    from 1(2) [OF True ne this rest 1(4)] True ne 1(4) show ?thesis
      by (subst set_accumulated_info_loop.simps) simp
  qed
qed

lemma slot_index_uint8:
  "k < ACCUMULATED_INFO_NUM \<Longrightarrow> (of_nat k :: uint8_t) \<noteq> 255 \<and> unat (of_nat k :: uint8_t) = k"
proof -
  assume "k < ACCUMULATED_INFO_NUM"
  then have k: "k < 16" by (simp add: ACCUMULATED_INFO_NUM_def)
  then have u: "unat (of_nat k :: uint8_t) = k"
    by (simp add: unat_of_nat)
  have "(of_nat k :: uint8_t) \<noteq> 255"
  proof
    assume "(of_nat k :: uint8_t) = 255"
    then have "unat (of_nat k :: uint8_t) = unat (255 :: uint8_t)" by simp
    with u have "k = 255" by simp
    with k show False by simp
  qed
  with u show ?thesis by simp
qed

lemma set_loop_absent_free:
  "(\<forall>j. i \<le> j \<and> j < ACCUMULATED_INFO_NUM \<longrightarrow>
      task_name (s_accumulated_infos s ! j) \<noteq> task_name info) \<Longrightarrow>
   i \<le> k \<Longrightarrow> k < ACCUMULATED_INFO_NUM \<Longrightarrow>
   task_name (s_accumulated_infos s ! k) = NULL \<Longrightarrow>
   (\<forall>j. i \<le> j \<and> j < k \<longrightarrow> task_name (s_accumulated_infos s ! j) \<noteq> NULL) \<Longrightarrow>
   set_accumulated_info_loop info i 255 s =
     s\<lparr>s_accumulated_infos := (s_accumulated_infos s)
        [k := (s_accumulated_infos s ! k)
           \<lparr>task_name := task_name info, time := time info, is_running := True\<rparr>]\<rparr>"
proof (induction "k - i" arbitrary: i)
  case 0
  then have ik: "i = k" by simp
  from 0(2,4) ik have ne: "task_name (s_accumulated_infos s ! k) \<noteq> task_name info"
    by (metis order_refl)
  from 0(2) have rest: "\<forall>j. k + 1 \<le> j \<and> j < ACCUMULATED_INFO_NUM \<longrightarrow>
      task_name (s_accumulated_infos s ! j) \<noteq> task_name info" using ik by simp
  have "set_accumulated_info_loop info k 255 s =
        set_accumulated_info_loop info (k + 1) (of_nat k) s"
    using 0(4,5) ne by (subst set_accumulated_info_loop.simps) simp
  also have "\<dots> = s\<lparr>s_accumulated_infos := (s_accumulated_infos s)
        [k := (s_accumulated_infos s ! k)
           \<lparr>task_name := task_name info, time := time info, is_running := True\<rparr>]\<rparr>"
    using set_loop_absent_dst [OF rest, of "of_nat k"] slot_index_uint8 [OF 0(4)] by simp
  finally show ?case using ik by simp
next
  case (Suc d)
  then have lt: "i < k" "i + 1 \<le> k" "d = k - (i + 1)" by simp_all
  with Suc(5) have i: "i < ACCUMULATED_INFO_NUM" by simp
  from Suc(3) i have ne: "task_name (s_accumulated_infos s ! i) \<noteq> task_name info" by simp
  from Suc(7) lt have nn: "task_name (s_accumulated_infos s ! i) \<noteq> NULL" by simp
  from Suc(3) have r1: "\<forall>j. i + 1 \<le> j \<and> j < ACCUMULATED_INFO_NUM \<longrightarrow>
      task_name (s_accumulated_infos s ! j) \<noteq> task_name info" by simp
  from Suc(7) have r2: "\<forall>j. i + 1 \<le> j \<and> j < k \<longrightarrow>
      task_name (s_accumulated_infos s ! j) \<noteq> NULL" by simp
  have "set_accumulated_info_loop info i 255 s = set_accumulated_info_loop info (i + 1) 255 s"
    using i ne nn by (subst set_accumulated_info_loop.simps) simp
  with Suc(1) [OF lt(3) r1 lt(2) Suc(5) Suc(6) r2] show ?case by simp
qed

lemma set_loop_full:
  "(\<forall>j. i \<le> j \<and> j < ACCUMULATED_INFO_NUM \<longrightarrow>
      task_name (s_accumulated_infos s ! j) \<noteq> task_name info \<and>
      task_name (s_accumulated_infos s ! j) \<noteq> NULL) \<Longrightarrow>
   set_accumulated_info_loop info i 255 s =
     s\<lparr>console := console s @ [ESP_LOGE ''error: accumulated info's buffer is full'']\<rparr>"
proof (induction "ACCUMULATED_INFO_NUM - i" arbitrary: i)
  case 0
  then show ?case by (subst set_accumulated_info_loop.simps) simp
next
  case (Suc d)
  then have i: "i < ACCUMULATED_INFO_NUM" and d: "d = ACCUMULATED_INFO_NUM - (i + 1)" by simp_all
  from Suc(3) i have ne: "task_name (s_accumulated_infos s ! i) \<noteq> task_name info"
    and nn: "task_name (s_accumulated_infos s ! i) \<noteq> NULL" by simp_all
  from Suc(3) have rest: "\<forall>j. i + 1 \<le> j \<and> j < ACCUMULATED_INFO_NUM \<longrightarrow>
      task_name (s_accumulated_infos s ! j) \<noteq> task_name info \<and>
      task_name (s_accumulated_infos s ! j) \<noteq> NULL" by simp
  have "set_accumulated_info_loop info i 255 s = set_accumulated_info_loop info (i + 1) 255 s"
    using i ne nn by (subst set_accumulated_info_loop.simps) simp
  with Suc(1) [OF d rest] show ?case by simp
qed

lemma set_accumulated_info_cases:
  obtains
    (found) k where "k < ACCUMULATED_INFO_NUM"
      "task_name (s_accumulated_infos s ! k) = task_name info"
      "\<forall>j<k. task_name (s_accumulated_infos s ! j) \<noteq> task_name info"
      "set_accumulated_info info s =
         s\<lparr>s_accumulated_infos := (s_accumulated_infos s)
            [k := (s_accumulated_infos s ! k)
               \<lparr>time := time (s_accumulated_infos s ! k) + time info, is_running := True\<rparr>]\<rparr>"
  | (free) k where
      "\<forall>j<ACCUMULATED_INFO_NUM. task_name (s_accumulated_infos s ! j) \<noteq> task_name info"
      "k < ACCUMULATED_INFO_NUM" "task_name (s_accumulated_infos s ! k) = NULL"
      "\<forall>j<k. task_name (s_accumulated_infos s ! j) \<noteq> NULL"
      "set_accumulated_info info s =
         s\<lparr>s_accumulated_infos := (s_accumulated_infos s)
            [k := (s_accumulated_infos s ! k)
               \<lparr>task_name := task_name info, time := time info, is_running := True\<rparr>]\<rparr>"
  | (full)
      "\<forall>j<ACCUMULATED_INFO_NUM. task_name (s_accumulated_infos s ! j) \<noteq> task_name info \<and>
          task_name (s_accumulated_infos s ! j) \<noteq> NULL"
      "set_accumulated_info info s =
         s\<lparr>console := console s @ [ESP_LOGE ''error: accumulated info's buffer is full'']\<rparr>"
proof (cases "get_accumulated_info_loop (task_name info) 0 (s_accumulated_infos s)")
  case (Some k)
  then have k: "k < ACCUMULATED_INFO_NUM" "task_name (s_accumulated_infos s ! k) = task_name info"
      "\<forall>j<k. task_name (s_accumulated_infos s ! j) \<noteq> task_name info"
    by (simp_all add: get_loop_Some)
  then show thesis
    using set_loop_found [of 0 k s info 255] found
    by (simp add: set_accumulated_info_def)
next
  case None
  then have absent: "\<forall>j<ACCUMULATED_INFO_NUM. task_name (s_accumulated_infos s ! j) \<noteq> task_name info"
    by (simp add: get_loop_None)
  show thesis
  proof (cases "get_accumulated_info_loop NULL 0 (s_accumulated_infos s)")
    case (Some k)
    then have k: "k < ACCUMULATED_INFO_NUM" "task_name (s_accumulated_infos s ! k) = NULL"
        "\<forall>j<k. task_name (s_accumulated_infos s ! j) \<noteq> NULL"
      by (simp_all add: get_loop_Some)
    with absent show thesis
      using set_loop_absent_free [of 0 s info k] free
      by (simp add: set_accumulated_info_def)
  next
    case None
    then have "\<forall>j<ACCUMULATED_INFO_NUM. task_name (s_accumulated_infos s ! j) \<noteq> NULL"
      by (simp add: get_loop_None)
    with absent show thesis
      using set_loop_full [of 0 s info] full
      by (simp add: set_accumulated_info_def)
  qed
qed

lemma console_set_accumulated_info:
  assumes "get_accumulated_info (task_name info) (set_accumulated_info info s) = Some res"
  shows "console (set_accumulated_info info s) = console s"
proof (cases rule: set_accumulated_info_cases [where s = s and info = info])
  case (found k)
  then show ?thesis by simp
next
  case (free k)
  then show ?thesis by simp
next
  case full
  then have "get_accumulated_info (task_name info) (set_accumulated_info info s) = None"
    by (simp add: get_accumulated_info_def get_loop_None)
  with assms show ?thesis by simp
qed

lemma match_loop_none:
  "(\<forall>j'. j \<le> j' \<and> j' < m \<longrightarrow> xHandle (E ! j') \<noteq> xHandle (S ! i)) \<Longrightarrow>
   match_loop S E m i j = (- 1, S, E)"
proof (induction "m - j" arbitrary: j)
  case 0
  then show ?case by (subst match_loop.simps) simp
next
  case (Suc d)
  then have j: "j < m" and d: "d = m - (j + 1)" by simp_all
  from Suc(3) j have ne: "xHandle (S ! i) \<noteq> xHandle (E ! j)" by (metis order_refl)
  from Suc(3) have rest: "\<forall>j'. j + 1 \<le> j' \<and> j' < m \<longrightarrow> xHandle (E ! j') \<noteq> xHandle (S ! i)"
    by simp
  have "match_loop S E m i j = match_loop S E m i (j + 1)"
    using j ne by (subst match_loop.simps) simp
  with Suc(1) [OF d rest] show ?case by simp
qed

lemma match_loop_first:
  "j \<le> j0 \<Longrightarrow> j0 < m \<Longrightarrow> xHandle (S ! i) = xHandle (E ! j0) \<Longrightarrow>
   (\<forall>j'. j \<le> j' \<and> j' < j0 \<longrightarrow> xHandle (E ! j') \<noteq> xHandle (S ! i)) \<Longrightarrow>
   match_loop S E m i j =
     (int j0, S[i := (S ! i)\<lparr>xHandle := NULL\<rparr>], E[j0 := (E ! j0)\<lparr>xHandle := NULL\<rparr>])"
proof (induction "j0 - j" arbitrary: j)
  case 0
  then have "j = j0" by simp
  with 0 show ?case by (subst match_loop.simps) simp
next
  case (Suc d)
  then have lt: "j < j0" "j + 1 \<le> j0" "d = j0 - (j + 1)" by simp_all
  with Suc(4) have j: "j < m" by simp
  from Suc(6) lt have ne: "xHandle (S ! i) \<noteq> xHandle (E ! j)" by (metis order_refl)
  from Suc(6) have rest: "\<forall>j'. j + 1 \<le> j' \<and> j' < j0 \<longrightarrow> xHandle (E ! j') \<noteq> xHandle (S ! i)"
    by simp
  have "match_loop S E m i j = match_loop S E m i (j + 1)"
    using j ne by (subst match_loop.simps) simp
  with Suc(1) [OF lt(3) lt(2) Suc(4) Suc(5) rest] show ?case by simp
qed

lemma slot_overwrite:
  "r\<lparr>task_name := a, time := b, is_running := c\<rparr> =
   \<lparr>task_name = a, time = b, is_running = c\<rparr>"
  by (cases r) simp

lemma end_calc_table:
  assumes "length tbl = ACCUMULATED_INFO_NUM"
  shows "end_calc_loop 0 tbl =
     map (\<lambda>e. if is_running e then e\<lparr>is_running := False\<rparr>
               else e\<lparr>task_name := NULL, time := 0\<rparr>) tbl"
  using assms by (intro nth_equalityI) (simp_all add: length_end_calc_loop nth_end_calc_loop)

lemma unique_names_reset:
  assumes "length tbl = ACCUMULATED_INFO_NUM"
  shows "unique_names (reset_loop 0 tbl)"
  using assms by (simp add: unique_names_def length_reset_loop nth_reset_loop)

lemma unique_names_end_calc:
  assumes "length tbl = ACCUMULATED_INFO_NUM" and "unique_names tbl"
  shows "unique_names (end_calc_loop 0 tbl)"
  using assms
  by (auto simp: unique_names_def end_calc_table split: if_splits)

lemma length_set_accumulated_info:
  "length (s_accumulated_infos (set_accumulated_info info s)) = length (s_accumulated_infos s)"
  by (cases rule: set_accumulated_info_cases [where s = s and info = info]) simp_all

lemma unique_names_set:
  assumes len: "length (s_accumulated_infos s) = ACCUMULATED_INFO_NUM"
    and u: "unique_names (s_accumulated_infos s)"
  shows "unique_names (s_accumulated_infos (set_accumulated_info info s))"
proof (cases rule: set_accumulated_info_cases [where s = s and info = info])
  case (found k)
  have "task_name (s_accumulated_infos (set_accumulated_info info s) ! i) =
        task_name (s_accumulated_infos s ! i)" if "i < ACCUMULATED_INFO_NUM" for i
    using found(4) that len by (cases "i = k") simp_all
  with u len show ?thesis
    by (simp add: unique_names_def length_set_accumulated_info)
next
  case (free k)
  have nth: "task_name (s_accumulated_infos (set_accumulated_info info s) ! i) =
        (if i = k then task_name info else task_name (s_accumulated_infos s ! i))"
    if "i < ACCUMULATED_INFO_NUM" for i
    using free(5) that len by (cases "i = k") simp_all
  show ?thesis
    unfolding unique_names_def
  proof (intro allI impI)
    fix i j
    assume i: "i < length (s_accumulated_infos (set_accumulated_info info s))"
      and j: "j < length (s_accumulated_infos (set_accumulated_info info s))"
      and e: "task_name (s_accumulated_infos (set_accumulated_info info s) ! i) =
              task_name (s_accumulated_infos (set_accumulated_info info s) ! j) \<and>
              task_name (s_accumulated_infos (set_accumulated_info info s) ! i) \<noteq> NULL"
    from i j len have ij: "i < ACCUMULATED_INFO_NUM" "j < ACCUMULATED_INFO_NUM"
      by (simp_all add: length_set_accumulated_info)
    show "i = j"
    proof (cases "i = k \<or> j = k")
      case True
      with e ij free(1) show ?thesis by (auto simp: nth [OF ij(1)] nth [OF ij(2)] split: if_splits)
    next
      case False
      with e ij u len show ?thesis
        by (simp add: nth [OF ij(1)] nth [OF ij(2)] unique_names_def)
    qed
  qed
next
  case full
  with u show ?thesis by simp
qed

lemma stats_loop_classify:
  assumes "stats_loop np tot n m S E i s = Inr (S', E', s')"
    and "length S = n" and "length E = m"
    and "\<forall>a<n. i \<le> a \<longrightarrow> xHandle (S ! a) \<noteq> NULL"
    and "\<forall>a<n. \<forall>b<n. i \<le> a \<and> i \<le> b \<and> xHandle (S ! a) = xHandle (S ! b) \<longrightarrow> a = b"
    and "\<forall>a<m. \<forall>b<m. xHandle (E ! a) = xHandle (E ! b) \<and> xHandle (E ! a) \<noteq> NULL \<longrightarrow> a = b"
  shows "S' = take i S @ map (consume (xHandle ` set E)) (drop i S) \<and>
         E' = map (consume (xHandle ` set (drop i S))) E \<and>
         (\<exists>rows. console s' = console s @ rows \<and>
            list_all2 (row_of (tot * np) E) [t \<leftarrow> drop i S. xHandle t \<in> xHandle ` set E] rows)"
  using assms
proof (induction "n - i" arbitrary: i S E s)
  case 0
  then have "\<not> i < n" by simp
  with 0(2) have "S' = S" "E' = E" "s' = s"
    by (simp_all add: stats_loop.simps [of np tot n m S E i s])
  with 0 show ?case by (simp add: consume_def)
next
  case (Suc d)
  let ?t = "S ! i"
  from Suc(2) have i: "i < n" and d: "d = n - (i + 1)" by simp_all
  from Suc.prems(4) i have h: "xHandle ?t \<noteq> NULL" by simp
  from i Suc.prems(2) have dropi: "drop i S = ?t # drop (i + 1) S"
    by (simp add: Cons_nth_drop_Suc)
  from i Suc.prems(2) have takei: "take (Suc i) S = take i S @ [?t]"
    by (simp add: take_Suc_conv_app_nth)
  have later: "xHandle u \<noteq> NULL \<and> xHandle u \<noteq> xHandle ?t" if "u \<in> set (drop (i + 1) S)" for u
  proof -
    from that obtain a where a: "a < length (drop (i + 1) S)" "u = drop (i + 1) S ! a"
      by (auto simp: in_set_conv_nth)
    with Suc.prems(2) have a': "i + 1 + a < n" "u = S ! (i + 1 + a)" by simp_all
    with Suc.prems(4) have "xHandle u \<noteq> NULL" by simp
    moreover have "xHandle u \<noteq> xHandle ?t"
    proof
      assume "xHandle u = xHandle ?t"
      with Suc.prems(5) a' i have "i + 1 + a = i" by (metis le_add1 order_refl add.assoc)
      then show False by simp
    qed
    ultimately show ?thesis by simp
  qed
  show ?case
  proof (cases "xHandle ?t \<in> xHandle ` set E")
    case False
    with Suc.prems(3) have "\<forall>j'. 0 \<le> j' \<and> j' < m \<longrightarrow> xHandle (E ! j') \<noteq> xHandle ?t"
      by (metis imageI nth_mem)
    then have "match_loop S E m i 0 = (- 1, S, E)" by (rule match_loop_none)
    with i have "stats_loop np tot n m S E i s = stats_loop np tot n m S E (i + 1) s"
      by (simp add: stats_loop.simps [of np tot n m S E i s])
    with Suc.prems(1) have run: "stats_loop np tot n m S E (i + 1) s = Inr (S', E', s')" by simp
    have p4: "\<forall>a<n. i + 1 \<le> a \<longrightarrow> xHandle (S ! a) \<noteq> NULL" using Suc.prems(4) by simp
    have p5: "\<forall>a<n. \<forall>b<n. i + 1 \<le> a \<and> i + 1 \<le> b \<and> xHandle (S ! a) = xHandle (S ! b) \<longrightarrow> a = b"
      using Suc.prems(5) by simp
    from Suc(1) [OF d run Suc.prems(2) Suc.prems(3) p4 p5 Suc.prems(6)]
    obtain rows where ih: "S' = take (i + 1) S @ map (consume (xHandle ` set E)) (drop (i + 1) S)"
      "E' = map (consume (xHandle ` set (drop (i + 1) S))) E"
      "console s' = console s @ rows"
      "list_all2 (row_of (tot * np) E) [t \<leftarrow> drop (i + 1) S. xHandle t \<in> xHandle ` set E] rows"
      by blast
    have "S' = take i S @ map (consume (xHandle ` set E)) (drop i S)"
      using ih(1) False by (simp add: takei dropi consume_def)
    moreover have "consume (xHandle ` set (drop i S)) u =
        consume (xHandle ` set (drop (i + 1) S)) u" if "u \<in> set E" for u
    proof -
      from that False have "xHandle u \<noteq> xHandle ?t" by (metis imageI)
      then show ?thesis by (simp add: dropi consume_def)
    qed
    then have "E' = map (consume (xHandle ` set (drop i S))) E"
      unfolding ih(2) by (intro map_cong) simp_all
    moreover have "list_all2 (row_of (tot * np) E) [t \<leftarrow> drop i S. xHandle t \<in> xHandle ` set E] rows"
      using ih(4) False by (simp add: dropi)
    ultimately show ?thesis using ih(3) by blast
  next
    case True
    then obtain j where j: "j < m" "xHandle (E ! j) = xHandle ?t"
      using Suc.prems(3) by (auto simp: in_set_conv_nth)
    have uniq: "j' = j" if "j' < m" "xHandle (E ! j') = xHandle ?t" for j'
      using Suc.prems(6) that j h by metis
    let ?S1 = "S[i := ?t\<lparr>xHandle := NULL\<rparr>]"
    let ?E1 = "E[j := (E ! j)\<lparr>xHandle := NULL\<rparr>]"
    have "\<forall>j'. 0 \<le> j' \<and> j' < j \<longrightarrow> xHandle (E ! j') \<noteq> xHandle ?t"
    proof (intro allI impI)
      fix j'
      assume a: "0 \<le> j' \<and> j' < j"
      show "xHandle (E ! j') \<noteq> xHandle ?t"
      proof
        assume "xHandle (E ! j') = xHandle ?t"
        moreover from a j(1) have "j' < m" by simp
        ultimately have "j' = j" by (rule uniq [rotated])
        with a show False by simp
      qed
    qed
    with j have match: "match_loop S E m i 0 = (int j, ?S1, ?E1)"
      using match_loop_first [of 0 j m S i E] by simp
    define e where "e = ulRunTimeCounter (E ! j) - ulRunTimeCounter ?t"
    define s1 where
      "s1 = set_accumulated_info \<lparr>task_name = pcTaskName ?t, time = ucast e, is_running = False\<rparr> s"
    have step: "stats_loop np tot n m S E i s =
        (if tot * np = 0 then Inl DivideByZero
         else case get_accumulated_info (pcTaskName ?t) s1 of
                None \<Rightarrow> Inl NullDereference
              | Some res \<Rightarrow>
                  stats_loop np tot n m ?S1 ?E1 (i + 1)
                    (s1\<lparr>console := console s1 @
                        [Row (pcTaskName ?t) e (time (s_accumulated_infos s1 ! res))
                           (e * 100 div (tot * np))]\<rparr>))"
      using i j Suc.prems(2,3) match
      by (simp add: stats_loop.simps [of np tot n m S E i s] Let_def e_def s1_def
          cong: option.case_cong)
    with Suc.prems(1) obtain res where
      res: "get_accumulated_info (pcTaskName ?t) s1 = Some res"
      and run: "stats_loop np tot n m ?S1 ?E1 (i + 1)
                 (s1\<lparr>console := console s1 @
                     [Row (pcTaskName ?t) e (time (s_accumulated_infos s1 ! res))
                        (e * 100 div (tot * np))]\<rparr>) = Inr (S', E', s')"
      by (auto split: if_splits option.splits)
    from res have c1: "console s1 = console s"
      unfolding s1_def using console_set_accumulated_info
        [of "\<lparr>task_name = pcTaskName ?t, time = ucast e, is_running = False\<rparr>" s res]
      by simp
    have p2: "length ?S1 = n" using Suc.prems(2) by simp
    have p3: "length ?E1 = m" using Suc.prems(3) by simp
    have p4: "\<forall>a<n. i + 1 \<le> a \<longrightarrow> xHandle (?S1 ! a) \<noteq> NULL" using Suc.prems(4) by simp
    have p5: "\<forall>a<n. \<forall>b<n. i + 1 \<le> a \<and> i + 1 \<le> b \<and> xHandle (?S1 ! a) = xHandle (?S1 ! b) \<longrightarrow> a = b"
    proof (intro allI impI)
      fix a b
      assume ab: "a < n" "b < n"
        and "i + 1 \<le> a \<and> i + 1 \<le> b \<and> xHandle (?S1 ! a) = xHandle (?S1 ! b)"
      moreover from this have "i \<noteq> a" "i \<noteq> b" by simp_all
      ultimately have "i \<le> a \<and> i \<le> b \<and> xHandle (S ! a) = xHandle (S ! b)" by simp
      with Suc.prems(5) ab show "a = b" by blast
    qed
    have p6: "\<forall>a<m. \<forall>b<m. xHandle (?E1 ! a) = xHandle (?E1 ! b) \<and> xHandle (?E1 ! a) \<noteq> NULL \<longrightarrow> a = b"
    proof (intro allI impI)
      fix a b
      assume ab: "a < m" "b < m"
        and eq: "xHandle (?E1 ! a) = xHandle (?E1 ! b) \<and> xHandle (?E1 ! a) \<noteq> NULL"
      from ab eq Suc.prems(3) have "a \<noteq> j" "b \<noteq> j"
        by (auto simp: nth_list_update split: if_splits)
      with eq have "xHandle (E ! a) = xHandle (E ! b) \<and> xHandle (E ! a) \<noteq> NULL" by simp
      with Suc.prems(6) ab show "a = b" by blast
    qed
    from Suc(1) [OF d run p2 p3 p4 p5 p6]
    obtain rows where ih: "S' = take (i + 1) ?S1 @ map (consume (xHandle ` set ?E1)) (drop (i + 1) ?S1)"
      "E' = map (consume (xHandle ` set (drop (i + 1) ?S1))) ?E1"
      "console s' = console s @ Row (pcTaskName ?t) e (time (s_accumulated_infos s1 ! res))
                        (e * 100 div (tot * np)) # rows"
      "list_all2 (row_of (tot * np) ?E1) [t \<leftarrow> drop (i + 1) ?S1. xHandle t \<in> xHandle ` set ?E1] rows"
      using c1 by auto
    have drop1: "drop (i + 1) ?S1 = drop (i + 1) S" by simp
    have take1: "take (i + 1) ?S1 = take i S @ [?t\<lparr>xHandle := NULL\<rparr>]"
      using i Suc.prems(2) by (simp add: take_Suc_conv_app_nth)
    have mem: "xHandle u \<in> xHandle ` set ?E1 \<longleftrightarrow> xHandle u \<in> xHandle ` set E"
      if "u \<in> set (drop (i + 1) S)" for u
    proof
      assume "xHandle u \<in> xHandle ` set ?E1"
      then obtain v where v: "v \<in> set ?E1" "xHandle v = xHandle u" by auto
      from v(1) have "v = (E ! j)\<lparr>xHandle := NULL\<rparr> \<or> v \<in> set E"
        using set_update_subset_insert [of E j "(E ! j)\<lparr>xHandle := NULL\<rparr>"] by auto
      with v(2) later [OF that] have "v \<in> set E" by auto
      with v(2) show "xHandle u \<in> xHandle ` set E" by (metis imageI)
    next
      assume "xHandle u \<in> xHandle ` set E"
      then obtain a where a: "a < m" "xHandle (E ! a) = xHandle u"
        using Suc.prems(3) by (auto simp: in_set_conv_nth)
      with later [OF that] j have "a \<noteq> j" by auto
      with a Suc.prems(3) have "?E1 ! a = E ! a" "a < length ?E1" by simp_all
      then have "E ! a \<in> set ?E1" by (metis nth_mem)
      with a(2) show "xHandle u \<in> xHandle ` set ?E1" by (metis imageI)
    qed
    have "S' = take i S @ map (consume (xHandle ` set E)) (drop i S)"
      unfolding ih(1) drop1 take1 dropi using True mem
      by (simp add: consume_def)
    moreover have "E' = map (consume (xHandle ` set (drop i S))) E"
    proof (rule nth_equalityI)
      show "length E' = length (map (consume (xHandle ` set (drop i S))) E)"
        unfolding ih(2) by simp
    next
      fix a
      assume "a < length E'"
      then have a: "a < m" unfolding ih(2) using Suc.prems(3) by simp
      show "E' ! a = map (consume (xHandle ` set (drop i S))) E ! a"
      proof (cases "a = j")
        case True
        have "NULL \<notin> xHandle ` set (drop (i + 1) S)" using later by force
        with True a j Suc.prems(3) show ?thesis
          unfolding ih(2) drop1 by (simp add: dropi consume_def)
      next
        case False
        with a uniq have "xHandle (E ! a) \<noteq> xHandle ?t" by blast
        with False a Suc.prems(3) show ?thesis
          unfolding ih(2) drop1 by (simp add: dropi consume_def)
      qed
    qed
    moreover have "list_all2 (row_of (tot * np) E) [t \<leftarrow> drop i S. xHandle t \<in> xHandle ` set E]
        (Row (pcTaskName ?t) e (time (s_accumulated_infos s1 ! res)) (e * 100 div (tot * np)) # rows)"
    proof -
      have first: "row_of (tot * np) E ?t
          (Row (pcTaskName ?t) e (time (s_accumulated_infos s1 ! res)) (e * 100 div (tot * np)))"
        unfolding row_of_def e_def using j Suc.prems(3) by (metis nth_mem)
      have feq: "[t \<leftarrow> drop (i + 1) ?S1. xHandle t \<in> xHandle ` set ?E1] =
          [t \<leftarrow> drop (i + 1) S. xHandle t \<in> xHandle ` set E]"
        unfolding drop1 using mem by (intro filter_cong) auto
      have mono: "row_of (tot * np) E u r"
        if "u \<in> set [t \<leftarrow> drop (i + 1) S. xHandle t \<in> xHandle ` set E]"
          and "row_of (tot * np) ?E1 u r" for u r
      proof -
        from that(1) have u: "u \<in> set (drop (i + 1) S)" by simp
        from that(2) obtain v acc where v: "v \<in> set ?E1" "xHandle v = xHandle u"
          "r = Row (pcTaskName u) (ulRunTimeCounter v - ulRunTimeCounter u) acc
                 ((ulRunTimeCounter v - ulRunTimeCounter u) * 100 div (tot * np))"
          unfolding row_of_def by blast
        from v(1) have "v = (E ! j)\<lparr>xHandle := NULL\<rparr> \<or> v \<in> set E"
          using set_update_subset_insert [of E j "(E ! j)\<lparr>xHandle := NULL\<rparr>"] by auto
        with v(2) later [OF u] have "v \<in> set E" by auto
        with v show ?thesis unfolding row_of_def by blast
      qed
      from ih(4) have "list_all2 (row_of (tot * np) E)
          [t \<leftarrow> drop (i + 1) S. xHandle t \<in> xHandle ` set E] rows"
        unfolding feq by (rule list.rel_mono_strong) (rule mono)
      with first True show ?thesis by (simp add: dropi)
    qed
    ultimately show ?thesis using ih(3) by blast
  qed
qed

lemma print_unmatched_filter:
  "print_unmatched line ts = map (\<lambda>t. line (pcTaskName t)) [t \<leftarrow> ts. xHandle t \<noteq> NULL]"
  by (induction ts) simp_all

lemma print_unmatched_consume:
  "\<forall>t\<in>set ts. xHandle t \<noteq> NULL \<Longrightarrow>
   print_unmatched line (map (consume H) ts) =
     map (\<lambda>t. line (pcTaskName t)) [t \<leftarrow> ts. xHandle t \<notin> H]"
  by (induction ts) (simp_all add: consume_def)

lemma console_end_calc_accumulated_info:
  "console (end_calc_accumulated_info s) = console s"
  by (simp add: end_calc_accumulated_info_def)

lemma distinct_handles_nth:
  assumes "distinct (map xHandle ts)"
  shows "\<forall>a<length ts. \<forall>b<length ts. xHandle (ts ! a) = xHandle (ts ! b) \<longrightarrow> a = b"
  using assms by (auto simp: distinct_conv_nth)

section \<open>What a pass that returns prints\<close>

text \<open>
  The handles of a snapshot are those of live tasks: none is \<^verbatim>\<open>NULL\<close> and no two entries
  of one snapshot share one. A pass over two such snapshots that returns \<^verbatim>\<open>ESP_OK\<close> has
  printed the header, then one row for each entry of the start snapshot whose handle occurs
  in the end snapshot (in the order of the start snapshot, with the run time taken from the
  end entry of the same handle), then one \<open>Deleted\<close> line for each entry of the start
  snapshot whose handle does not occur in the end snapshot, then one \<open>Created\<close> line for
  each entry of the end snapshot whose handle does not occur in the start snapshot, and
  nothing else. Names play no part in the class of an entry.
\<close>

lemma print_real_time_stats_classifies:
  assumes "distinct (map xHandle (tasks start_snapshot))"
    and "NULL \<notin> xHandle ` set (tasks start_snapshot)"
    and "distinct (map xHandle (tasks end_snapshot))"
    and "NULL \<notin> xHandle ` set (tasks end_snapshot)"
    and "print_real_time_stats num_processors start_snapshot end_snapshot s = Inr (ESP_OK, s')"
  shows "\<exists>rows.
     console s' = console s @ [Header, Separator] @ rows @
       map (\<lambda>t. Deleted (pcTaskName t))
         [t \<leftarrow> tasks start_snapshot. xHandle t \<notin> xHandle ` set (tasks end_snapshot)] @
       map (\<lambda>t. Created (pcTaskName t))
         [t \<leftarrow> tasks end_snapshot. xHandle t \<notin> xHandle ` set (tasks start_snapshot)] \<and>
     list_all2
       (row_of ((run_time end_snapshot - run_time start_snapshot) * num_processors)
          (tasks end_snapshot))
       [t \<leftarrow> tasks start_snapshot. xHandle t \<in> xHandle ` set (tasks end_snapshot)] rows"
proof -
  let ?S = "tasks start_snapshot" and ?E = "tasks end_snapshot"
  let ?tot = "run_time end_snapshot - run_time start_snapshot"
  let ?s0 = "s\<lparr>console := console s @ [Header, Separator]\<rparr>"
  from assms(5) obtain S' E' s1 where
    run: "stats_loop num_processors ?tot (length ?S) (length ?E) ?S ?E 0 ?s0 = Inr (S', E', s1)"
    and s': "s' = end_calc_accumulated_info
       (s1\<lparr>console := console s1 @ print_unmatched Deleted S' @ print_unmatched Created E'\<rparr>)"
    by (auto simp: print_real_time_stats_def split: if_splits sum.splits)
  have p4: "\<forall>a<length ?S. 0 \<le> a \<longrightarrow> xHandle (?S ! a) \<noteq> NULL"
    using assms(2) by (metis imageI nth_mem)
  have p5: "\<forall>a<length ?S. \<forall>b<length ?S.
      0 \<le> a \<and> 0 \<le> b \<and> xHandle (?S ! a) = xHandle (?S ! b) \<longrightarrow> a = b"
    using distinct_handles_nth [OF assms(1)] by simp
  have p6: "\<forall>a<length ?E. \<forall>b<length ?E.
      xHandle (?E ! a) = xHandle (?E ! b) \<and> xHandle (?E ! a) \<noteq> NULL \<longrightarrow> a = b"
    using distinct_handles_nth [OF assms(3)] by simp
  from stats_loop_classify [OF run refl refl p4 p5 p6]
  obtain rows where S': "S' = map (consume (xHandle ` set ?E)) ?S"
    and E': "E' = map (consume (xHandle ` set ?S)) ?E"
    and c: "console s1 = console s @ [Header, Separator] @ rows"
    and rows: "list_all2 (row_of (?tot * num_processors) ?E)
        [t \<leftarrow> ?S. xHandle t \<in> xHandle ` set ?E] rows"
    by auto
  have d: "print_unmatched Deleted S' =
      map (\<lambda>t. Deleted (pcTaskName t)) [t \<leftarrow> ?S. xHandle t \<notin> xHandle ` set ?E]"
    unfolding S' using assms(2) by (intro print_unmatched_consume) (metis imageI)
  have e: "print_unmatched Created E' =
      map (\<lambda>t. Created (pcTaskName t)) [t \<leftarrow> ?E. xHandle t \<notin> xHandle ` set ?S]"
    unfolding E' using assms(4) by (intro print_unmatched_consume) (metis imageI)
  from c d e rows show ?thesis
    by (simp add: s' console_end_calc_accumulated_info)
qed

text \<open>
  Two tasks stay, the task named 14 with handle 4 ends and a task with the same name and
  handle 3 is created.
\<close>

lemma print_real_time_stats_classifies_example:
  "print_real_time_stats 2
     \<lparr>malloc_ok = True,
        tasks = [\<lparr>xHandle = 1, pcTaskName = 11, ulRunTimeCounter = 1000\<rparr>,
                 \<lparr>xHandle = 2, pcTaskName = 12, ulRunTimeCounter = 500\<rparr>,
                 \<lparr>xHandle = 4, pcTaskName = 14, ulRunTimeCounter = 70\<rparr>],
        run_time = 0\<rparr>
     \<lparr>malloc_ok = True,
        tasks = [\<lparr>xHandle = 1, pcTaskName = 11, ulRunTimeCounter = 1400\<rparr>,
                 \<lparr>xHandle = 2, pcTaskName = 12, ulRunTimeCounter = 900\<rparr>,
                 \<lparr>xHandle = 3, pcTaskName = 14, ulRunTimeCounter = 50\<rparr>],
        run_time = 1000\<rparr>
     \<lparr>s_accumulated_infos =
        replicate 16 \<lparr>task_name = NULL, time = 0, is_running = False\<rparr>,
      console = []\<rparr> =
   Inr (ESP_OK,
     \<lparr>s_accumulated_infos =
        (replicate 16 \<lparr>task_name = NULL, time = 0, is_running = False\<rparr>)
          [0 := \<lparr>task_name = 11, time = 400, is_running = False\<rparr>,
           1 := \<lparr>task_name = 12, time = 400, is_running = False\<rparr>],
      console = [Header, Separator, Row 11 400 400 20, Row 12 400 400 20,
                 Deleted 14, Created 14]\<rparr>) \<and>
   (\<exists>rows.
      [Header, Separator, Row 11 400 400 20, Row 12 400 400 20, Deleted 14, Created 14] =
        [Header, Separator] @ rows @ [Deleted 14] @ [Created 14] \<and>
      list_all2 (row_of 2000 (tasks
     \<lparr>malloc_ok = True,
        tasks = [\<lparr>xHandle = 1, pcTaskName = 11, ulRunTimeCounter = 1400\<rparr>,
                 \<lparr>xHandle = 2, pcTaskName = 12, ulRunTimeCounter = 900\<rparr>,
                 \<lparr>xHandle = 3, pcTaskName = 14, ulRunTimeCounter = 50\<rparr>],
        run_time = 1000\<rparr>))
        [\<lparr>xHandle = 1, pcTaskName = 11, ulRunTimeCounter = 1000\<rparr>,
         \<lparr>xHandle = 2, pcTaskName = 12, ulRunTimeCounter = 500\<rparr>] rows)"
proof -
  let ?S = "\<lparr>malloc_ok = True,
        tasks = [\<lparr>xHandle = 1, pcTaskName = 11, ulRunTimeCounter = 1000\<rparr>,
                 \<lparr>xHandle = 2, pcTaskName = 12, ulRunTimeCounter = 500\<rparr>,
                 \<lparr>xHandle = 4, pcTaskName = 14, ulRunTimeCounter = 70\<rparr>],
        run_time = 0\<rparr>"
  let ?E = "\<lparr>malloc_ok = True,
        tasks = [\<lparr>xHandle = 1, pcTaskName = 11, ulRunTimeCounter = 1400\<rparr>,
                 \<lparr>xHandle = 2, pcTaskName = 12, ulRunTimeCounter = 900\<rparr>,
                 \<lparr>xHandle = 3, pcTaskName = 14, ulRunTimeCounter = 50\<rparr>],
        run_time = 1000\<rparr>"
  let ?s = "\<lparr>s_accumulated_infos =
        replicate 16 \<lparr>task_name = NULL, time = 0, is_running = False\<rparr>,
      console = []\<rparr>"
  let ?s' = "\<lparr>s_accumulated_infos =
        (replicate 16 \<lparr>task_name = NULL, time = 0, is_running = False\<rparr>)
          [0 := \<lparr>task_name = 11, time = 400, is_running = False\<rparr>,
           1 := \<lparr>task_name = 12, time = 400, is_running = False\<rparr>],
      console = [Header, Separator, Row 11 400 400 20, Row 12 400 400 20,
                 Deleted 14, Created 14]\<rparr>"
  have run: "print_real_time_stats 2 ?S ?E ?s = Inr (ESP_OK, ?s')"
    by code_simp
  have ok: "distinct (map xHandle (tasks ?S))" "NULL \<notin> xHandle ` set (tasks ?S)"
    "distinct (map xHandle (tasks ?E))" "NULL \<notin> xHandle ` set (tasks ?E)"
    by simp_all
  from print_real_time_stats_classifies [OF ok run] run show ?thesis
    by simp
qed

section \<open>The passes that return\<close>

text \<open>
  A matched task whose name the table does not hold takes one free slot, and any other
  matched task takes none. So on snapshots of live tasks (handles and names that are not
  \<^verbatim>\<open>NULL\<close>, no handle twice in one snapshot), taken with a divisor that is not zero, the
  pass returns \<^verbatim>\<open>ESP_OK\<close> when the new names are no more than the free slots, and ends
  in the read through \<^verbatim>\<open>NULL\<close> when they are more.
\<close>

lemma names_index:
  assumes "length tbl = ACCUMULATED_INFO_NUM"
  shows "nm \<in> task_name ` set tbl \<longleftrightarrow> (\<exists>k<ACCUMULATED_INFO_NUM. task_name (tbl ! k) = nm)"
proof
  assume "nm \<in> task_name ` set tbl"
  then obtain x where "x \<in> set tbl" "nm = task_name x" by blast
  then obtain k where "k < length tbl" "tbl ! k = x" by (auto simp: in_set_conv_nth)
  with assms \<open>nm = task_name x\<close> show "\<exists>k<ACCUMULATED_INFO_NUM. task_name (tbl ! k) = nm"
    by auto
next
  assume "\<exists>k<ACCUMULATED_INFO_NUM. task_name (tbl ! k) = nm"
  then obtain k where k: "k < ACCUMULATED_INFO_NUM" "task_name (tbl ! k) = nm" by blast
  with assms have "tbl ! k \<in> set tbl" by simp
  with k(2) show "nm \<in> task_name ` set tbl" by (metis imageI)
qed

lemma set_accumulated_info_effect:
  assumes len: "length (s_accumulated_infos s) = ACCUMULATED_INFO_NUM"
    and nn: "task_name info \<noteq> NULL"
  obtains
    (kept) res where "task_name info \<in> task_name ` set (s_accumulated_infos s)"
      "task_name ` set (s_accumulated_infos (set_accumulated_info info s)) =
       task_name ` set (s_accumulated_infos s)"
      "free_slots (s_accumulated_infos (set_accumulated_info info s)) =
       free_slots (s_accumulated_infos s)"
      "get_accumulated_info (task_name info) (set_accumulated_info info s) = Some res"
  | (added) res where "task_name info \<notin> task_name ` set (s_accumulated_infos s)"
      "task_name ` set (s_accumulated_infos (set_accumulated_info info s)) - {NULL} =
       insert (task_name info) (task_name ` set (s_accumulated_infos s) - {NULL})"
      "0 < free_slots (s_accumulated_infos s)"
      "free_slots (s_accumulated_infos (set_accumulated_info info s)) =
       free_slots (s_accumulated_infos s) - 1"
      "get_accumulated_info (task_name info) (set_accumulated_info info s) = Some res"
  | (no_room) "task_name info \<notin> task_name ` set (s_accumulated_infos s)"
      "free_slots (s_accumulated_infos s) = 0"
      "get_accumulated_info (task_name info) (set_accumulated_info info s) = None"
proof -
  let ?tbl = "s_accumulated_infos s"
  let ?tbl' = "s_accumulated_infos (set_accumulated_info info s)"
  have len': "length ?tbl' = ACCUMULATED_INFO_NUM"
    using len by (simp add: length_set_accumulated_info)
  show thesis
  proof (cases rule: set_accumulated_info_cases [where s = s and info = info])
    case (found k)
    have names: "task_name (?tbl' ! i) = task_name (?tbl ! i)" if "i < ACCUMULATED_INFO_NUM" for i
      using found(4) that len by (cases "i = k") simp_all
    have 1: "task_name info \<in> task_name ` set ?tbl"
      using found(1,2) by (auto simp: names_index [OF len])
    have "x \<in> task_name ` set ?tbl' \<longleftrightarrow> x \<in> task_name ` set ?tbl" for x
      unfolding names_index [OF len] names_index [OF len'] using names by auto
    then have 2: "task_name ` set ?tbl' = task_name ` set ?tbl" by blast
    have 3: "free_slots ?tbl' = free_slots ?tbl"
      unfolding free_slots_def using names by (intro arg_cong [where f = card]) auto
    have "get_accumulated_info (task_name info) (set_accumulated_info info s) \<noteq> None"
      using found(1,2) names [OF found(1)]
      by (auto simp: get_accumulated_info_def get_loop_None)
    then obtain res where
      "get_accumulated_info (task_name info) (set_accumulated_info info s) = Some res" by auto
    with 1 2 3 show thesis by (rule kept)
  next
    case (free k)
    have names: "task_name (?tbl' ! i) = (if i = k then task_name info else task_name (?tbl ! i))"
      if "i < ACCUMULATED_INFO_NUM" for i
      using free(5) that len by (cases "i = k") simp_all
    have 1: "task_name info \<notin> task_name ` set ?tbl"
      using free(1) by (simp add: names_index [OF len])
    have 2: "task_name ` set ?tbl' - {NULL} = insert (task_name info) (task_name ` set ?tbl - {NULL})"
    proof (intro set_eqI iffI)
      fix x
      assume "x \<in> task_name ` set ?tbl' - {NULL}"
      then obtain i where i: "i < ACCUMULATED_INFO_NUM" "task_name (?tbl' ! i) = x" "x \<noteq> NULL"
        by (auto simp: names_index [OF len'])
      then show "x \<in> insert (task_name info) (task_name ` set ?tbl - {NULL})"
        using names [OF i(1)] by (cases "i = k") (auto simp: names_index [OF len])
    next
      fix x
      assume x: "x \<in> insert (task_name info) (task_name ` set ?tbl - {NULL})"
      show "x \<in> task_name ` set ?tbl' - {NULL}"
      proof (cases "x = task_name info")
        case True
        with nn free(2) names [OF free(2)] show ?thesis
          by (auto simp: names_index [OF len'])
      next
        case False
        with x obtain i where i: "i < ACCUMULATED_INFO_NUM" "task_name (?tbl ! i) = x" "x \<noteq> NULL"
          by (auto simp: names_index [OF len])
        with free(3) have "i \<noteq> k" by auto
        with i names [OF i(1)] show ?thesis
          by (auto simp: names_index [OF len'])
      qed
    qed
    have 3: "0 < free_slots ?tbl"
    proof -
      have "k \<in> {i. i < ACCUMULATED_INFO_NUM \<and> task_name (?tbl ! i) = NULL}"
        using free(2,3) by simp
      moreover have "finite {i. i < ACCUMULATED_INFO_NUM \<and> task_name (?tbl ! i) = NULL}" by simp
      ultimately show ?thesis unfolding free_slots_def by (metis card_gt_0_iff empty_iff)
    qed
    have "{i. i < ACCUMULATED_INFO_NUM \<and> task_name (?tbl' ! i) = NULL} =
          {i. i < ACCUMULATED_INFO_NUM \<and> task_name (?tbl ! i) = NULL} - {k}"
      using names nn by (auto split: if_splits)
    then have 4: "free_slots ?tbl' = free_slots ?tbl - 1"
      unfolding free_slots_def using free(2,3) by simp
    have "get_accumulated_info (task_name info) (set_accumulated_info info s) \<noteq> None"
      using free(2) names [OF free(2)]
      by (auto simp: get_accumulated_info_def get_loop_None)
    then obtain res where
      "get_accumulated_info (task_name info) (set_accumulated_info info s) = Some res" by auto
    with 1 2 3 4 show thesis by (rule added)
  next
    case full
    have 1: "task_name info \<notin> task_name ` set ?tbl"
      using full(1) by (simp add: names_index [OF len])
    have "{i. i < ACCUMULATED_INFO_NUM \<and> task_name (?tbl ! i) = NULL} = {}"
      using full(1) by auto
    then have 2: "free_slots ?tbl = 0" unfolding free_slots_def by simp
    have 3: "get_accumulated_info (task_name info) (set_accumulated_info info s) = None"
      using full by (simp add: get_accumulated_info_def get_loop_None)
    from 1 2 3 show thesis by (rule no_room)
  qed
qed

lemma handles_after_match:
  assumes "j < length E" and "x \<noteq> NULL" and "x \<noteq> xHandle (E ! j)"
  shows "x \<in> xHandle ` set (E[j := (E ! j)\<lparr>xHandle := NULL\<rparr>]) \<longleftrightarrow> x \<in> xHandle ` set E"
proof
  assume "x \<in> xHandle ` set (E[j := (E ! j)\<lparr>xHandle := NULL\<rparr>])"
  then obtain v where v: "v \<in> set (E[j := (E ! j)\<lparr>xHandle := NULL\<rparr>])" "xHandle v = x" by auto
  from v(1) have "v = (E ! j)\<lparr>xHandle := NULL\<rparr> \<or> v \<in> set E"
    using set_update_subset_insert [of E j "(E ! j)\<lparr>xHandle := NULL\<rparr>"] by auto
  with v(2) assms(2) have "v \<in> set E" by auto
  with v(2) show "x \<in> xHandle ` set E" by (metis imageI)
next
  assume "x \<in> xHandle ` set E"
  then obtain a where a: "a < length E" "xHandle (E ! a) = x"
    by (auto simp: in_set_conv_nth)
  with assms(3) have "a \<noteq> j" by auto
  with a have "E[j := (E ! j)\<lparr>xHandle := NULL\<rparr>] ! a = E ! a"
    "a < length (E[j := (E ! j)\<lparr>xHandle := NULL\<rparr>])" by simp_all
  then have "E ! a \<in> set (E[j := (E ! j)\<lparr>xHandle := NULL\<rparr>])" by (metis nth_mem)
  with a(2) show "x \<in> xHandle ` set (E[j := (E ! j)\<lparr>xHandle := NULL\<rparr>])" by (metis imageI)
qed

lemma stats_loop_room:
  assumes "tot * np \<noteq> 0"
    and "length S = n" and "length E = m"
    and "\<forall>a<n. i \<le> a \<longrightarrow> xHandle (S ! a) \<noteq> NULL \<and> pcTaskName (S ! a) \<noteq> NULL"
    and "\<forall>a<n. \<forall>b<n. i \<le> a \<and> i \<le> b \<and> xHandle (S ! a) = xHandle (S ! b) \<longrightarrow> a = b"
    and "\<forall>a<m. \<forall>b<m. xHandle (E ! a) = xHandle (E ! b) \<and> xHandle (E ! a) \<noteq> NULL \<longrightarrow> a = b"
    and "length (s_accumulated_infos s) = ACCUMULATED_INFO_NUM"
  shows "(card (new_names (drop i S) E (s_accumulated_infos s))
             \<le> free_slots (s_accumulated_infos s) \<longrightarrow>
          (\<exists>S' E' s'. stats_loop np tot n m S E i s = Inr (S', E', s'))) \<and>
         (\<not> card (new_names (drop i S) E (s_accumulated_infos s))
             \<le> free_slots (s_accumulated_infos s) \<longrightarrow>
          stats_loop np tot n m S E i s = Inl NullDereference)"
  using assms
proof (induction "n - i" arbitrary: i S E s)
  case 0
  then have "drop i S = []" by simp
  with 0 show ?case
    by (simp add: stats_loop.simps [of np tot n m S E i s] new_names_def)
next
  case (Suc d)
  let ?t = "S ! i"
  let ?tbl = "s_accumulated_infos s"
  from Suc(2) have i: "i < n" and d: "d = n - (i + 1)" by simp_all
  from Suc.prems(4) i have h: "xHandle ?t \<noteq> NULL" and nm: "pcTaskName ?t \<noteq> NULL" by simp_all
  from i Suc.prems(2) have dropi: "drop i S = ?t # drop (i + 1) S"
    by (simp add: Cons_nth_drop_Suc)
  have later: "xHandle u \<noteq> NULL \<and> xHandle u \<noteq> xHandle ?t \<and> pcTaskName u \<noteq> NULL"
    if "u \<in> set (drop (i + 1) S)" for u
  proof -
    from that obtain a where a: "a < length (drop (i + 1) S)" "u = drop (i + 1) S ! a"
      by (auto simp: in_set_conv_nth)
    with Suc.prems(2) have a': "i + 1 + a < n" "u = S ! (i + 1 + a)" by simp_all
    with Suc.prems(4) have "xHandle u \<noteq> NULL" "pcTaskName u \<noteq> NULL" by simp_all
    moreover have "xHandle u \<noteq> xHandle ?t"
    proof
      assume "xHandle u = xHandle ?t"
      with Suc.prems(5) a' i have "i + 1 + a = i" by (metis le_add1 order_refl add.assoc)
      then show False by simp
    qed
    ultimately show ?thesis by simp
  qed
  have p4: "\<forall>a<n. i + 1 \<le> a \<longrightarrow> xHandle (S ! a) \<noteq> NULL \<and> pcTaskName (S ! a) \<noteq> NULL"
    using Suc.prems(4) by simp
  have p5: "\<forall>a<n. \<forall>b<n. i + 1 \<le> a \<and> i + 1 \<le> b \<and> xHandle (S ! a) = xHandle (S ! b) \<longrightarrow> a = b"
    using Suc.prems(5) by simp
  show ?case
  proof (cases "xHandle ?t \<in> xHandle ` set E")
    case False
    with Suc.prems(3) have "\<forall>j'. 0 \<le> j' \<and> j' < m \<longrightarrow> xHandle (E ! j') \<noteq> xHandle ?t"
      by (metis imageI nth_mem)
    then have "match_loop S E m i 0 = (- 1, S, E)" by (rule match_loop_none)
    with i have step: "stats_loop np tot n m S E i s = stats_loop np tot n m S E (i + 1) s"
      by (simp add: stats_loop.simps [of np tot n m S E i s])
    have "new_names (drop i S) E ?tbl = new_names (drop (i + 1) S) E ?tbl"
      using False by (auto simp: new_names_def dropi)
    with Suc(1) [OF d Suc.prems(1,2,3) p4 p5 Suc.prems(6,7)] step show ?thesis by simp
  next
    case True
    then obtain j where j: "j < m" "xHandle (E ! j) = xHandle ?t"
      using Suc.prems(3) by (auto simp: in_set_conv_nth)
    have uniq: "j' = j" if "j' < m" "xHandle (E ! j') = xHandle ?t" for j'
      using Suc.prems(6) that j h by metis
    let ?S1 = "S[i := ?t\<lparr>xHandle := NULL\<rparr>]"
    let ?E1 = "E[j := (E ! j)\<lparr>xHandle := NULL\<rparr>]"
    have "\<forall>j'. 0 \<le> j' \<and> j' < j \<longrightarrow> xHandle (E ! j') \<noteq> xHandle ?t"
    proof (intro allI impI)
      fix j'
      assume a: "0 \<le> j' \<and> j' < j"
      show "xHandle (E ! j') \<noteq> xHandle ?t"
      proof
        assume "xHandle (E ! j') = xHandle ?t"
        moreover from a j(1) have "j' < m" by simp
        ultimately have "j' = j" by (rule uniq [rotated])
        with a show False by simp
      qed
    qed
    with j have match: "match_loop S E m i 0 = (int j, ?S1, ?E1)"
      using match_loop_first [of 0 j m S i E] by simp
    define e where "e = ulRunTimeCounter (E ! j) - ulRunTimeCounter ?t"
    define buf where
      "buf = \<lparr>task_name = pcTaskName ?t, time = ucast e, is_running = False\<rparr>"
    define s1 where "s1 = set_accumulated_info buf s"
    have step: "stats_loop np tot n m S E i s =
        (case get_accumulated_info (pcTaskName ?t) s1 of
           None \<Rightarrow> Inl NullDereference
         | Some res \<Rightarrow>
             stats_loop np tot n m ?S1 ?E1 (i + 1)
               (s1\<lparr>console := console s1 @
                   [Row (pcTaskName ?t) e (time (s_accumulated_infos s1 ! res))
                      (e * 100 div (tot * np))]\<rparr>))"
      using i j Suc.prems(1,2,3) match
      by (simp add: stats_loop.simps [of np tot n m S E i s] Let_def e_def s1_def buf_def
          cong: option.case_cong)
    have q2: "length ?S1 = n" using Suc.prems(2) by simp
    have q3: "length ?E1 = m" using Suc.prems(3) by simp
    have q4: "\<forall>a<n. i + 1 \<le> a \<longrightarrow> xHandle (?S1 ! a) \<noteq> NULL \<and> pcTaskName (?S1 ! a) \<noteq> NULL"
      using p4 by simp
    have q5: "\<forall>a<n. \<forall>b<n. i + 1 \<le> a \<and> i + 1 \<le> b \<and> xHandle (?S1 ! a) = xHandle (?S1 ! b) \<longrightarrow> a = b"
    proof (intro allI impI)
      fix a b
      assume ab: "a < n" "b < n"
        and "i + 1 \<le> a \<and> i + 1 \<le> b \<and> xHandle (?S1 ! a) = xHandle (?S1 ! b)"
      moreover from this have "i \<noteq> a" "i \<noteq> b" by simp_all
      ultimately have "i \<le> a \<and> i \<le> b \<and> xHandle (S ! a) = xHandle (S ! b)" by simp
      with Suc.prems(5) ab show "a = b" by blast
    qed
    have q6: "\<forall>a<m. \<forall>b<m. xHandle (?E1 ! a) = xHandle (?E1 ! b) \<and> xHandle (?E1 ! a) \<noteq> NULL \<longrightarrow> a = b"
    proof (intro allI impI)
      fix a b
      assume ab: "a < m" "b < m"
        and eq: "xHandle (?E1 ! a) = xHandle (?E1 ! b) \<and> xHandle (?E1 ! a) \<noteq> NULL"
      from ab eq Suc.prems(3) have "a \<noteq> j" "b \<noteq> j"
        by (auto simp: nth_list_update split: if_splits)
      with eq have "xHandle (E ! a) = xHandle (E ! b) \<and> xHandle (E ! a) \<noteq> NULL" by simp
      with Suc.prems(6) ab show "a = b" by blast
    qed
    have drop1: "drop (i + 1) ?S1 = drop (i + 1) S" by simp
    define A where "A = pcTaskName ` {t \<in> set (drop (i + 1) S). xHandle t \<in> xHandle ` set E}"
    have A1: "pcTaskName ` {t \<in> set (drop (i + 1) ?S1). xHandle t \<in> xHandle ` set ?E1} = A"
    proof -
      have "xHandle u \<in> xHandle ` set ?E1 \<longleftrightarrow> xHandle u \<in> xHandle ` set E"
        if "u \<in> set (drop (i + 1) S)" for u
        using handles_after_match [of j E "xHandle u"] later [OF that] j Suc.prems(3) by simp
      then have "{t \<in> set (drop (i + 1) S). xHandle t \<in> xHandle ` set ?E1} =
                 {t \<in> set (drop (i + 1) S). xHandle t \<in> xHandle ` set E}" by blast
      then show ?thesis unfolding drop1 A_def by simp
    qed
    have A0: "pcTaskName ` {t \<in> set (drop i S). xHandle t \<in> xHandle ` set E} =
              insert (pcTaskName ?t) A"
      unfolding A_def dropi using True by auto
    have finA: "finite A" unfolding A_def by simp
    have nullA: "NULL \<notin> A" unfolding A_def using later by force
    have new0: "new_names (drop i S) E ?tbl = insert (pcTaskName ?t) A - task_name ` set ?tbl"
      unfolding new_names_def A0 ..
    have new1: "new_names (drop (i + 1) ?S1) ?E1 tbl' = A - task_name ` set tbl'" for tbl'
      unfolding new_names_def A1 ..
    have name: "task_name buf = pcTaskName ?t" by (simp add: buf_def)
    have bufnn: "task_name buf \<noteq> NULL" using nm name by simp
    from Suc.prems(7) bufnn show ?thesis
    proof (cases rule: set_accumulated_info_effect)
      case (kept res)
      let ?s2 = "s1\<lparr>console := console s1 @
          [Row (pcTaskName ?t) e (time (s_accumulated_infos s1 ! res))
             (e * 100 div (tot * np))]\<rparr>"
      from kept(4) have res: "get_accumulated_info (pcTaskName ?t) s1 = Some res"
        by (simp add: s1_def name)
      have len2: "length (s_accumulated_infos ?s2) = ACCUMULATED_INFO_NUM"
        using Suc.prems(7) by (simp add: s1_def length_set_accumulated_info)
      have "new_names (drop i S) E ?tbl = A - task_name ` set ?tbl"
        unfolding new0 using kept(1) name by auto
      also have "\<dots> = new_names (drop (i + 1) ?S1) ?E1 (s_accumulated_infos ?s2)"
        unfolding new1 using kept(2) by (simp add: s1_def)
      finally have "card (new_names (drop i S) E ?tbl) \<le> free_slots ?tbl \<longleftrightarrow>
          card (new_names (drop (i + 1) ?S1) ?E1 (s_accumulated_infos ?s2))
            \<le> free_slots (s_accumulated_infos ?s2)"
        using kept(3) by (simp add: s1_def)
      with Suc(1) [OF d Suc.prems(1) q2 q3 q4 q5 q6 len2] step res show ?thesis
        by simp
    next
      case (added res)
      let ?s2 = "s1\<lparr>console := console s1 @
          [Row (pcTaskName ?t) e (time (s_accumulated_infos s1 ! res))
             (e * 100 div (tot * np))]\<rparr>"
      from added(5) have res: "get_accumulated_info (pcTaskName ?t) s1 = Some res"
        by (simp add: s1_def name)
      have len2: "length (s_accumulated_infos ?s2) = ACCUMULATED_INFO_NUM"
        using Suc.prems(7) by (simp add: s1_def length_set_accumulated_info)
      define B where "B = A - task_name ` set ?tbl - {pcTaskName ?t}"
      have finB: "finite B" unfolding B_def using finA by simp
      have "new_names (drop i S) E ?tbl = insert (pcTaskName ?t) B"
        unfolding new0 B_def using added(1) name by auto
      moreover have "pcTaskName ?t \<notin> B" unfolding B_def by simp
      ultimately have c0: "card (new_names (drop i S) E ?tbl) = Suc (card B)"
        using finB by simp
      have "A - task_name ` set (s_accumulated_infos s1) =
            A - (task_name ` set (s_accumulated_infos s1) - {NULL})"
        using nullA by auto
      also have "\<dots> = A - insert (pcTaskName ?t) (task_name ` set ?tbl - {NULL})"
        using added(2) by (simp add: s1_def name)
      also have "\<dots> = B" unfolding B_def using nullA by auto
      finally have c1: "new_names (drop (i + 1) ?S1) ?E1 (s_accumulated_infos ?s2) = B"
        unfolding new1 by simp
      have "card (new_names (drop i S) E ?tbl) \<le> free_slots ?tbl \<longleftrightarrow>
          card (new_names (drop (i + 1) ?S1) ?E1 (s_accumulated_infos ?s2))
            \<le> free_slots (s_accumulated_infos ?s2)"
        unfolding c0 c1 using added(3,4) by (auto simp: s1_def)
      with Suc(1) [OF d Suc.prems(1) q2 q3 q4 q5 q6 len2] step res show ?thesis
        by simp
    next
      case no_room
      from no_room(3) have "get_accumulated_info (pcTaskName ?t) s1 = None"
        by (simp add: s1_def name)
      with step have fault: "stats_loop np tot n m S E i s = Inl NullDereference" by simp
      have "pcTaskName ?t \<in> new_names (drop i S) E ?tbl"
        unfolding new0 using no_room(1) name by simp
      moreover have "finite (new_names (drop i S) E ?tbl)"
        unfolding new0 using finA by simp
      ultimately have "0 < card (new_names (drop i S) E ?tbl)"
        by (metis card_gt_0_iff empty_iff)
      with no_room(2) fault show ?thesis by simp
    qed
  qed
qed

lemma print_real_time_stats_room:
  assumes "malloc_ok start_snapshot" and "tasks start_snapshot \<noteq> []"
    and "malloc_ok end_snapshot" and "tasks end_snapshot \<noteq> []"
    and "(run_time end_snapshot - run_time start_snapshot) * num_processors \<noteq> 0"
    and "distinct (map xHandle (tasks start_snapshot))"
    and "NULL \<notin> xHandle ` set (tasks start_snapshot)"
    and "distinct (map xHandle (tasks end_snapshot))"
    and "NULL \<notin> xHandle ` set (tasks end_snapshot)"
    and "NULL \<notin> pcTaskName ` set (tasks start_snapshot)"
    and "length (s_accumulated_infos s) = ACCUMULATED_INFO_NUM"
  shows "(card (new_names (tasks start_snapshot) (tasks end_snapshot) (s_accumulated_infos s))
            \<le> free_slots (s_accumulated_infos s) \<longrightarrow>
          (\<exists>s'. print_real_time_stats num_processors start_snapshot end_snapshot s =
                  Inr (ESP_OK, s'))) \<and>
         (\<not> card (new_names (tasks start_snapshot) (tasks end_snapshot) (s_accumulated_infos s))
            \<le> free_slots (s_accumulated_infos s) \<longrightarrow>
          print_real_time_stats num_processors start_snapshot end_snapshot s =
            Inl NullDereference)"
proof -
  let ?S = "tasks start_snapshot" and ?E = "tasks end_snapshot"
  let ?tot = "run_time end_snapshot - run_time start_snapshot"
  let ?s0 = "s\<lparr>console := console s @ [Header, Separator]\<rparr>"
  from assms(5) have tot: "?tot \<noteq> 0" by auto
  have p4: "\<forall>a<length ?S. 0 \<le> a \<longrightarrow> xHandle (?S ! a) \<noteq> NULL \<and> pcTaskName (?S ! a) \<noteq> NULL"
    using assms(7,10) by (metis imageI nth_mem)
  have p5: "\<forall>a<length ?S. \<forall>b<length ?S.
      0 \<le> a \<and> 0 \<le> b \<and> xHandle (?S ! a) = xHandle (?S ! b) \<longrightarrow> a = b"
    using distinct_handles_nth [OF assms(6)] by simp
  have p6: "\<forall>a<length ?E. \<forall>b<length ?E.
      xHandle (?E ! a) = xHandle (?E ! b) \<and> xHandle (?E ! a) \<noteq> NULL \<longrightarrow> a = b"
    using distinct_handles_nth [OF assms(8)] by simp
  have len: "length (s_accumulated_infos ?s0) = ACCUMULATED_INFO_NUM"
    using assms(11) by simp
  from stats_loop_room [OF assms(5) refl refl p4 p5 p6 len]
  have loop: "(card (new_names ?S ?E (s_accumulated_infos s)) \<le> free_slots (s_accumulated_infos s) \<longrightarrow>
        (\<exists>S' E' s'. stats_loop num_processors ?tot (length ?S) (length ?E) ?S ?E 0 ?s0 =
           Inr (S', E', s'))) \<and>
      (\<not> card (new_names ?S ?E (s_accumulated_infos s)) \<le> free_slots (s_accumulated_infos s) \<longrightarrow>
        stats_loop num_processors ?tot (length ?S) (length ?E) ?S ?E 0 ?s0 = Inl NullDereference)"
    by simp
  show ?thesis
  proof (intro conjI impI)
    assume "card (new_names ?S ?E (s_accumulated_infos s)) \<le> free_slots (s_accumulated_infos s)"
    with loop obtain S' E' s' where
      "stats_loop num_processors ?tot (length ?S) (length ?E) ?S ?E 0 ?s0 = Inr (S', E', s')"
      by blast
    with assms(1-4) tot
    show "\<exists>s'. print_real_time_stats num_processors start_snapshot end_snapshot s =
        Inr (ESP_OK, s')"
      by (simp add: print_real_time_stats_def)
  next
    assume "\<not> card (new_names ?S ?E (s_accumulated_infos s)) \<le> free_slots (s_accumulated_infos s)"
    with loop have
      "stats_loop num_processors ?tot (length ?S) (length ?E) ?S ?E 0 ?s0 = Inl NullDereference"
      by blast
    with assms(1-4) tot
    show "print_real_time_stats num_processors start_snapshot end_snapshot s =
        Inl NullDereference"
      by (simp add: print_real_time_stats_def)
  qed
qed

text \<open>With room for the new names, the pass returns and prints the classification.\<close>

lemma print_real_time_stats_room_classifies:
  assumes "malloc_ok start_snapshot" and "tasks start_snapshot \<noteq> []"
    and "malloc_ok end_snapshot" and "tasks end_snapshot \<noteq> []"
    and "(run_time end_snapshot - run_time start_snapshot) * num_processors \<noteq> 0"
    and "distinct (map xHandle (tasks start_snapshot))"
    and "NULL \<notin> xHandle ` set (tasks start_snapshot)"
    and "distinct (map xHandle (tasks end_snapshot))"
    and "NULL \<notin> xHandle ` set (tasks end_snapshot)"
    and "NULL \<notin> pcTaskName ` set (tasks start_snapshot)"
    and "length (s_accumulated_infos s) = ACCUMULATED_INFO_NUM"
    and "card (new_names (tasks start_snapshot) (tasks end_snapshot) (s_accumulated_infos s))
           \<le> free_slots (s_accumulated_infos s)"
  shows "\<exists>s' rows.
     print_real_time_stats num_processors start_snapshot end_snapshot s = Inr (ESP_OK, s') \<and>
     console s' = console s @ [Header, Separator] @ rows @
       map (\<lambda>t. Deleted (pcTaskName t))
         [t \<leftarrow> tasks start_snapshot. xHandle t \<notin> xHandle ` set (tasks end_snapshot)] @
       map (\<lambda>t. Created (pcTaskName t))
         [t \<leftarrow> tasks end_snapshot. xHandle t \<notin> xHandle ` set (tasks start_snapshot)] \<and>
     list_all2
       (row_of ((run_time end_snapshot - run_time start_snapshot) * num_processors)
          (tasks end_snapshot))
       [t \<leftarrow> tasks start_snapshot. xHandle t \<in> xHandle ` set (tasks end_snapshot)] rows"
proof -
  from print_real_time_stats_room [OF assms(1-11)] assms(12) obtain s' where
    run: "print_real_time_stats num_processors start_snapshot end_snapshot s = Inr (ESP_OK, s')"
    by blast
  from print_real_time_stats_classifies [OF assms(6-9) run] run show ?thesis by blast
qed

section \<open>The table at any time\<close>

text \<open>
  In every state the program can be in, whatever passes and resets came before, the table
  has its 16 slots and no name other than \<^verbatim>\<open>NULL\<close> occurs in two of them.
\<close>

lemma reachable_unique_names:
  "reachable s \<Longrightarrow>
   length (s_accumulated_infos s) = ACCUMULATED_INFO_NUM \<and> unique_names (s_accumulated_infos s)"
proof (induction rule: reachable.induct)
  case reach_initial
  show ?case by (simp add: unique_names_def)
next
  case (reach_reset s)
  then show ?case
    by (simp add: stats_reset_accumulated_infos_def length_reset_loop unique_names_reset)
next
  case (reach_record s info)
  then show ?case
    by (simp add: length_set_accumulated_info unique_names_set)
next
  case (reach_end_pass s)
  then show ?case
    by (simp add: end_calc_accumulated_info_def length_end_calc_loop unique_names_end_calc)
next
  case (reach_written s c)
  then show ?case by simp
qed

lemma stats_loop_reachable:
  "reachable s \<Longrightarrow> stats_loop np tot n m S E i s = Inr (S', E', s') \<Longrightarrow> reachable s'"
proof (induction "n - i" arbitrary: i S E s)
  case 0
  then show ?case by (simp add: stats_loop.simps [of np tot n m S E i s])
next
  case (Suc d)
  then have i: "i < n" and d: "d = n - (i + 1)" by simp_all
  obtain k S1 E1 where match: "match_loop S E m i 0 = (k, S1, E1)"
    by (metis prod_cases3)
  show ?case
  proof (cases "0 \<le> k")
    case False
    with Suc.prems(2) i match
    have "stats_loop np tot n m S1 E1 (i + 1) s = Inr (S', E', s')"
      by (simp add: stats_loop.simps [of np tot n m S E i s])
    from Suc(1) [OF d Suc.prems(1) this] show ?thesis .
  next
    case True
    let ?buf = "\<lparr>task_name = pcTaskName (S1 ! i),
                  time = ucast (ulRunTimeCounter (E1 ! nat k) - ulRunTimeCounter (S1 ! i)),
                  is_running = False\<rparr>"
    let ?s1 = "set_accumulated_info ?buf s"
    from Suc.prems(2) i match True obtain res where
      "stats_loop np tot n m S1 E1 (i + 1)
         (?s1\<lparr>console := console ?s1 @
            [Row (pcTaskName (S1 ! i)) (ulRunTimeCounter (E1 ! nat k) - ulRunTimeCounter (S1 ! i))
               (time (s_accumulated_infos ?s1 ! res))
               ((ulRunTimeCounter (E1 ! nat k) - ulRunTimeCounter (S1 ! i)) * 100
                  div (tot * np))]\<rparr>) = Inr (S', E', s')"
      by (auto simp: stats_loop.simps [of np tot n m S E i s] Let_def
          split: if_splits option.splits)
    moreover have "reachable (?s1\<lparr>console := console ?s1 @
            [Row (pcTaskName (S1 ! i)) (ulRunTimeCounter (E1 ! nat k) - ulRunTimeCounter (S1 ! i))
               (time (s_accumulated_infos ?s1 ! res))
               ((ulRunTimeCounter (E1 ! nat k) - ulRunTimeCounter (S1 ! i)) * 100
                  div (tot * np))]\<rparr>)"
      using Suc.prems(1) by (intro reachable.reach_written reachable.reach_record)
    ultimately show ?thesis using Suc(1) [OF d] by blast
  qed
qed

lemma print_real_time_stats_reachable:
  assumes "reachable s"
    and "print_real_time_stats num_processors start_snapshot end_snapshot s = Inr (ret, s')"
  shows "reachable s'"
proof (cases "ret = ESP_OK")
  case False
  with assms show ?thesis
    by (auto simp: print_real_time_stats_def split: if_splits sum.splits)
next
  case True
  let ?s0 = "s\<lparr>console := console s @ [Header, Separator]\<rparr>"
  from assms(2) True obtain S' E' s1 where
    run: "stats_loop num_processors (run_time end_snapshot - run_time start_snapshot)
            (length (tasks start_snapshot)) (length (tasks end_snapshot))
            (tasks start_snapshot) (tasks end_snapshot) 0 ?s0 = Inr (S', E', s1)"
    and s': "s' = end_calc_accumulated_info
       (s1\<lparr>console := console s1 @ print_unmatched Deleted S' @ print_unmatched Created E'\<rparr>)"
    by (auto simp: print_real_time_stats_def split: if_splits sum.splits)
  have "reachable ?s0" using assms(1) by (rule reachable.reach_written)
  from stats_loop_reachable [OF this run] show ?thesis
    unfolding s' by (intro reachable.reach_end_pass reachable.reach_written)
qed

section \<open>The arithmetic of a row\<close>

text \<open>
  The run time of the window is the 32-bit difference of the two counters, so it is their
  difference modulo \<open>2 ^ 32\<close>. The percentage is the quotient of two 32-bit products;
  it is the quotient of the exact products when neither product reaches \<open>2 ^ 32\<close>.
\<close>

lemma row_of_values:
  assumes "row_of divisor E t (Row n e acc p)"
  shows "\<exists>u\<in>set E. xHandle u = xHandle t \<and> n = pcTaskName t \<and>
           uint e = (uint (ulRunTimeCounter u) - uint (ulRunTimeCounter t)) mod 2 ^ 32 \<and>
           p = e * 100 div divisor"
  using assms by (auto simp: row_of_def uint_word_ariths)

lemma percentage_time_exact:
  fixes e tot np :: uint32_t
  assumes "unat e * 100 < 2 ^ 32" and "unat tot * unat np < 2 ^ 32"
  shows "unat (e * 100 div (tot * np)) = unat e * 100 div (unat tot * unat np)"
proof -
  have "unat (e * 100) = unat e * unat (100 :: uint32_t)"
    using assms(1) by (subst unat_mult_lem [symmetric]) simp
  moreover have "unat (tot * np) = unat tot * unat np"
    using assms(2) by (subst unat_mult_lem [symmetric]) simp
  ultimately show ?thesis by (simp add: unat_div)
qed

section \<open>The claims\<close>

text \<open>
  C1. A pass on a full table. The table holds sixteen names left by the pass before, and
  the one task of both snapshots has another name. \<^verbatim>\<open>set_accumulated_info\<close> logs that
  the buffer is full and returns, \<^verbatim>\<open>get_accumulated_info\<close> then returns \<^verbatim>\<open>NULL\<close>, and
  \<^verbatim>\<open>print_real_time_stats\<close> reads \<^verbatim>\<open>res->time\<close> through it: the pass does not return
  \<^verbatim>\<open>ESP_OK\<close>, and no row is printed for the task.
\<close>

theorem full_table_null_dereference:
  "print_real_time_stats 2
     \<lparr>malloc_ok = True,
        tasks = [\<lparr>xHandle = 100, pcTaskName = 50, ulRunTimeCounter = 0\<rparr>],
        run_time = 0\<rparr>
     \<lparr>malloc_ok = True,
        tasks = [\<lparr>xHandle = 100, pcTaskName = 50, ulRunTimeCounter = 10\<rparr>],
        run_time = 1000\<rparr>
     \<lparr>s_accumulated_infos =
        map (\<lambda>n. \<lparr>task_name = Suc n, time = 0, is_running = False\<rparr>) [0..<16],
      console = []\<rparr> =
   Inl NullDereference"
  by code_simp

text \<open>
  C2. \<^verbatim>\<open>print_real_time_stats\<close> returns \<^verbatim>\<open>ESP_ERR_INVALID_STATE\<close> exactly when both
  snapshots were taken (both allocations succeeded, both arrays hold an entry) and the two
  total run times are equal, which is when their 32-bit difference is zero; the table and
  the output are then as they were. An end value below the start value is not such a case:
  the difference wraps around to a positive value and the pass goes on, as the
  counterexample below shows for the run times 5 and 3.
\<close>

theorem degenerate_window:
  "print_real_time_stats num_processors start_snapshot end_snapshot s =
     Inr (ESP_ERR_INVALID_STATE, s') \<longleftrightarrow>
   malloc_ok start_snapshot \<and> tasks start_snapshot \<noteq> [] \<and>
   malloc_ok end_snapshot \<and> tasks end_snapshot \<noteq> [] \<and>
   run_time end_snapshot = run_time start_snapshot \<and> s' = s"
  by (auto simp: print_real_time_stats_def split: sum.splits)

theorem degenerate_window_witness:
  "print_real_time_stats 2
     \<lparr>malloc_ok = True,
        tasks = [\<lparr>xHandle = 1, pcTaskName = 11, ulRunTimeCounter = 1000\<rparr>],
        run_time = 1000\<rparr>
     \<lparr>malloc_ok = True,
        tasks = [\<lparr>xHandle = 1, pcTaskName = 11, ulRunTimeCounter = 1400\<rparr>],
        run_time = 1000\<rparr>
     \<lparr>s_accumulated_infos =
        replicate 16 \<lparr>task_name = NULL, time = 0, is_running = False\<rparr>,
      console = []\<rparr> =
   Inr (ESP_ERR_INVALID_STATE,
     \<lparr>s_accumulated_infos =
        replicate 16 \<lparr>task_name = NULL, time = 0, is_running = False\<rparr>,
      console = []\<rparr>)"
  using degenerate_window [of 2
     "\<lparr>malloc_ok = True,
        tasks = [\<lparr>xHandle = 1, pcTaskName = 11, ulRunTimeCounter = 1000\<rparr>],
        run_time = 1000\<rparr>"
     "\<lparr>malloc_ok = True,
        tasks = [\<lparr>xHandle = 1, pcTaskName = 11, ulRunTimeCounter = 1400\<rparr>],
        run_time = 1000\<rparr>"
     "\<lparr>s_accumulated_infos =
        replicate 16 \<lparr>task_name = NULL, time = 0, is_running = False\<rparr>,
      console = []\<rparr>"
     "\<lparr>s_accumulated_infos =
        replicate 16 \<lparr>task_name = NULL, time = 0, is_running = False\<rparr>,
      console = []\<rparr>"]
  by simp

theorem negative_window_counterexample:
  "uint (3 :: uint32_t) - uint (5 :: uint32_t) \<le> 0 \<and>
   print_real_time_stats 2
     \<lparr>malloc_ok = True,
        tasks = [\<lparr>xHandle = 1, pcTaskName = 11, ulRunTimeCounter = 1000\<rparr>],
        run_time = 5\<rparr>
     \<lparr>malloc_ok = True,
        tasks = [\<lparr>xHandle = 1, pcTaskName = 11, ulRunTimeCounter = 1400\<rparr>],
        run_time = 3\<rparr>
     \<lparr>s_accumulated_infos =
        replicate 16 \<lparr>task_name = NULL, time = 0, is_running = False\<rparr>,
      console = []\<rparr> =
   Inr (ESP_OK,
     \<lparr>s_accumulated_infos =
        (replicate 16 \<lparr>task_name = NULL, time = 0, is_running = False\<rparr>)
          [0 := \<lparr>task_name = 11, time = 400, is_running = False\<rparr>],
      console = [Header, Separator, Row 11 400 400 0]\<rparr>)"
  by (rule conjI, simp, code_simp)

text \<open>
  C3. A pass that does not classify its entries. The table is the zero-initialised one and
  seventeen tasks live through the window; one more task (handle 50) is in the start
  snapshot only and another (handle 51) in the end snapshot only. Sixteen tasks get their
  rows and fill the table; the seventeenth finds no slot, and the pass ends in the read
  through \<^verbatim>\<open>NULL\<close> of C1, before the two loops that print the ended and the created
  tasks. The seventeenth task has no row, the task with handle 50 is never reported as
  ended and the task with handle 51 is never reported as created.
\<close>

theorem seventeen_tasks_never_classified:
  "print_real_time_stats 2
     \<lparr>malloc_ok = True,
        tasks = map (\<lambda>n. \<lparr>xHandle = 100 + n, pcTaskName = 200 + n, ulRunTimeCounter = 0\<rparr>)
                  [0..<17] @
                [\<lparr>xHandle = 50, pcTaskName = 60, ulRunTimeCounter = 0\<rparr>],
        run_time = 0\<rparr>
     \<lparr>malloc_ok = True,
        tasks = map (\<lambda>n. \<lparr>xHandle = 100 + n, pcTaskName = 200 + n, ulRunTimeCounter = 10\<rparr>)
                  [0..<17] @
                [\<lparr>xHandle = 51, pcTaskName = 61, ulRunTimeCounter = 0\<rparr>],
        run_time = 1000\<rparr>
     \<lparr>s_accumulated_infos =
        replicate 16 \<lparr>task_name = NULL, time = 0, is_running = False\<rparr>,
      console = []\<rparr> =
   Inl NullDereference"
  by code_simp

text \<open>
  C4. The percentage of a large run time. A task ran 120000000 ticks of a window of
  240000000 ticks on two processors, a quarter of the capacity. The product
  \<open>120000000 * 100\<close> does not fit in 32 bits, and the row printed shows 7 where the exact
  quotient is 25.
\<close>

theorem percentage_overflow:
  "print_real_time_stats 2
     \<lparr>malloc_ok = True,
        tasks = [\<lparr>xHandle = 100, pcTaskName = 50, ulRunTimeCounter = 0\<rparr>],
        run_time = 0\<rparr>
     \<lparr>malloc_ok = True,
        tasks = [\<lparr>xHandle = 100, pcTaskName = 50, ulRunTimeCounter = 120000000\<rparr>],
        run_time = 240000000\<rparr>
     \<lparr>s_accumulated_infos =
        replicate 16 \<lparr>task_name = NULL, time = 0, is_running = False\<rparr>,
      console = []\<rparr> =
   Inr (ESP_OK,
     \<lparr>s_accumulated_infos =
        (replicate 16 \<lparr>task_name = NULL, time = 0, is_running = False\<rparr>)
          [0 := \<lparr>task_name = 50, time = 120000000, is_running = False\<rparr>],
      console = [Header, Separator, Row 50 120000000 120000000 7]\<rparr>) \<and>
   (120000000 * 100) div (240000000 * 2) = (25 :: nat)"
  by (rule conjI, code_simp, simp)

text \<open>
  C5. \<^verbatim>\<open>set_accumulated_info\<close> on the table of 16 slots: when a slot holds the name of
  \<open>info\<close>, the first such slot has the time of \<open>info\<close> added to its time (64-bit
  addition) and its flag set; otherwise, when a slot is free, the first free slot becomes
  the record of the name with the time of \<open>info\<close> and the flag set; otherwise the table is
  left as it is and one error line is logged. Nothing else changes in any of the three cases.
\<close>

theorem set_accumulated_info_record:
  assumes "length (s_accumulated_infos s) = ACCUMULATED_INFO_NUM"
  shows "(\<forall>i<ACCUMULATED_INFO_NUM.
            task_name (s_accumulated_infos s ! i) = task_name info \<and>
            (\<forall>k<i. task_name (s_accumulated_infos s ! k) \<noteq> task_name info) \<longrightarrow>
            set_accumulated_info info s =
              s\<lparr>s_accumulated_infos := (s_accumulated_infos s)
                 [i := (s_accumulated_infos s ! i)
                    \<lparr>time := time (s_accumulated_infos s ! i) + time info,
                     is_running := True\<rparr>]\<rparr>) \<and>
         ((\<forall>k<ACCUMULATED_INFO_NUM. task_name (s_accumulated_infos s ! k) \<noteq> task_name info) \<longrightarrow>
          (\<forall>i<ACCUMULATED_INFO_NUM.
             task_name (s_accumulated_infos s ! i) = NULL \<and>
             (\<forall>k<i. task_name (s_accumulated_infos s ! k) \<noteq> NULL) \<longrightarrow>
             set_accumulated_info info s =
               s\<lparr>s_accumulated_infos := (s_accumulated_infos s)
                  [i := \<lparr>task_name = task_name info, time = time info,
                         is_running = True\<rparr>]\<rparr>)) \<and>
         ((\<forall>k<ACCUMULATED_INFO_NUM.
             task_name (s_accumulated_infos s ! k) \<noteq> task_name info \<and>
             task_name (s_accumulated_infos s ! k) \<noteq> NULL) \<longrightarrow>
          set_accumulated_info info s =
            s\<lparr>console := console s @
                [ESP_LOGE ''error: accumulated info's buffer is full'']\<rparr>)"
proof (intro conjI allI impI)
  fix i
  assume "i < ACCUMULATED_INFO_NUM"
    and "task_name (s_accumulated_infos s ! i) = task_name info \<and>
         (\<forall>k<i. task_name (s_accumulated_infos s ! k) \<noteq> task_name info)"
  then show "set_accumulated_info info s =
      s\<lparr>s_accumulated_infos := (s_accumulated_infos s)
         [i := (s_accumulated_infos s ! i)
            \<lparr>time := time (s_accumulated_infos s ! i) + time info, is_running := True\<rparr>]\<rparr>"
    using set_loop_found [of 0 i s info 255] by (simp add: set_accumulated_info_def)
next
  fix i
  assume "\<forall>k<ACCUMULATED_INFO_NUM. task_name (s_accumulated_infos s ! k) \<noteq> task_name info"
    and "i < ACCUMULATED_INFO_NUM"
    and "task_name (s_accumulated_infos s ! i) = NULL \<and>
         (\<forall>k<i. task_name (s_accumulated_infos s ! k) \<noteq> NULL)"
  then show "set_accumulated_info info s =
      s\<lparr>s_accumulated_infos := (s_accumulated_infos s)
         [i := \<lparr>task_name = task_name info, time = time info, is_running = True\<rparr>]\<rparr>"
    using set_loop_absent_free [of 0 s info i]
    by (simp add: set_accumulated_info_def slot_overwrite)
next
  assume "\<forall>k<ACCUMULATED_INFO_NUM.
      task_name (s_accumulated_infos s ! k) \<noteq> task_name info \<and>
      task_name (s_accumulated_infos s ! k) \<noteq> NULL"
  then show "set_accumulated_info info s =
      s\<lparr>console := console s @ [ESP_LOGE ''error: accumulated info's buffer is full'']\<rparr>"
    using set_loop_full [of 0 s info] by (simp add: set_accumulated_info_def)
qed

theorem set_accumulated_info_record_witness:
  "set_accumulated_info \<lparr>task_name = 7, time = 5, is_running = False\<rparr>
     \<lparr>s_accumulated_infos =
        (replicate 16 \<lparr>task_name = NULL, time = 0, is_running = False\<rparr>)
          [0 := \<lparr>task_name = 3, time = 10, is_running = False\<rparr>,
           2 := \<lparr>task_name = 7, time = 100, is_running = False\<rparr>],
      console = []\<rparr> =
   \<lparr>s_accumulated_infos =
        (replicate 16 \<lparr>task_name = NULL, time = 0, is_running = False\<rparr>)
          [0 := \<lparr>task_name = 3, time = 10, is_running = False\<rparr>,
           2 := \<lparr>task_name = 7, time = 105, is_running = True\<rparr>],
      console = []\<rparr> \<and>
   set_accumulated_info \<lparr>task_name = 9, time = 5, is_running = False\<rparr>
     \<lparr>s_accumulated_infos =
        (replicate 16 \<lparr>task_name = NULL, time = 0, is_running = False\<rparr>)
          [0 := \<lparr>task_name = 3, time = 10, is_running = False\<rparr>,
           2 := \<lparr>task_name = 7, time = 100, is_running = False\<rparr>],
      console = []\<rparr> =
   \<lparr>s_accumulated_infos =
        (replicate 16 \<lparr>task_name = NULL, time = 0, is_running = False\<rparr>)
          [0 := \<lparr>task_name = 3, time = 10, is_running = False\<rparr>,
           2 := \<lparr>task_name = 7, time = 100, is_running = False\<rparr>,
           1 := \<lparr>task_name = 9, time = 5, is_running = True\<rparr>],
      console = []\<rparr> \<and>
   set_accumulated_info \<lparr>task_name = 50, time = 7, is_running = False\<rparr>
     \<lparr>s_accumulated_infos =
        map (\<lambda>n. \<lparr>task_name = Suc n, time = 0, is_running = False\<rparr>) [0..<16],
      console = []\<rparr> =
   \<lparr>s_accumulated_infos =
        map (\<lambda>n. \<lparr>task_name = Suc n, time = 0, is_running = False\<rparr>) [0..<16],
      console = [ESP_LOGE ''error: accumulated info's buffer is full'']\<rparr>"
proof -
  let ?s = "\<lparr>s_accumulated_infos =
        (replicate 16 \<lparr>task_name = NULL, time = 0, is_running = False\<rparr>)
          [0 := \<lparr>task_name = 3, time = 10, is_running = False\<rparr>,
           2 := \<lparr>task_name = 7, time = 100, is_running = False\<rparr>],
      console = []\<rparr>"
  let ?f = "\<lparr>s_accumulated_infos =
        map (\<lambda>n. \<lparr>task_name = Suc n, time = 0, is_running = False\<rparr>) [0..<16],
      console = []\<rparr>"
  have len: "length (s_accumulated_infos ?s) = ACCUMULATED_INFO_NUM"
    "length (s_accumulated_infos ?f) = ACCUMULATED_INFO_NUM"
    by (simp_all add: ACCUMULATED_INFO_NUM_def)
  have "set_accumulated_info \<lparr>task_name = 7, time = 5, is_running = False\<rparr> ?s =
      ?s\<lparr>s_accumulated_infos := (s_accumulated_infos ?s)
         [2 := (s_accumulated_infos ?s ! 2)\<lparr>time := time (s_accumulated_infos ?s ! 2) + 5,
                 is_running := True\<rparr>]\<rparr>"
    using set_accumulated_info_record [OF len(1), of "\<lparr>task_name = 7, time = 5, is_running = False\<rparr>",
        THEN conjunct1, rule_format, of 2]
    by (simp add: ACCUMULATED_INFO_NUM_def nth_list_update)
  moreover have "set_accumulated_info \<lparr>task_name = 9, time = 5, is_running = False\<rparr> ?s =
      ?s\<lparr>s_accumulated_infos := (s_accumulated_infos ?s)
         [1 := \<lparr>task_name = 9, time = 5, is_running = True\<rparr>]\<rparr>"
    using set_accumulated_info_record [OF len(1), of "\<lparr>task_name = 9, time = 5, is_running = False\<rparr>",
        THEN conjunct2, THEN conjunct1, rule_format, of 1]
    by (simp add: ACCUMULATED_INFO_NUM_def nth_list_update)
  moreover have "set_accumulated_info \<lparr>task_name = 50, time = 7, is_running = False\<rparr> ?f =
      ?f\<lparr>console := console ?f @ [ESP_LOGE ''error: accumulated info's buffer is full'']\<rparr>"
    using set_accumulated_info_record [OF len(2), of "\<lparr>task_name = 50, time = 7, is_running = False\<rparr>",
        THEN conjunct2, THEN conjunct2, rule_format]
    by (simp add: ACCUMULATED_INFO_NUM_def)
  ultimately show ?thesis by simp
qed

text \<open>
  C6. \<^verbatim>\<open>end_calc_accumulated_info\<close> clears the name and the time of every slot whose
  flag is not set and resets the flag of every other slot; it writes nothing. So a name
  other than \<^verbatim>\<open>NULL\<close> whose slots all have the flag not set is not found by
  \<^verbatim>\<open>get_accumulated_info\<close> afterwards.
\<close>

theorem end_calc_accumulated_info_evicts:
  assumes "length (s_accumulated_infos s) = ACCUMULATED_INFO_NUM"
  shows "s_accumulated_infos (end_calc_accumulated_info s) =
           map (\<lambda>e. if is_running e then e\<lparr>is_running := False\<rparr>
                     else e\<lparr>task_name := NULL, time := 0\<rparr>) (s_accumulated_infos s) \<and>
         console (end_calc_accumulated_info s) = console s \<and>
         (\<forall>nm. nm \<noteq> NULL \<and>
            (\<forall>i<ACCUMULATED_INFO_NUM. task_name (s_accumulated_infos s ! i) = nm \<longrightarrow>
                \<not> is_running (s_accumulated_infos s ! i)) \<longrightarrow>
            get_accumulated_info nm (end_calc_accumulated_info s) = None)"
  using assms
  by (auto simp: end_calc_accumulated_info_def end_calc_table get_accumulated_info_def get_loop_None)

theorem end_calc_accumulated_info_evicts_witness:
  "s_accumulated_infos (end_calc_accumulated_info
     \<lparr>s_accumulated_infos =
        (replicate 16 \<lparr>task_name = NULL, time = 0, is_running = False\<rparr>)
          [0 := \<lparr>task_name = 3, time = 10, is_running = True\<rparr>,
           2 := \<lparr>task_name = 7, time = 100, is_running = False\<rparr>],
      console = []\<rparr>) =
     (replicate 16 \<lparr>task_name = NULL, time = 0, is_running = False\<rparr>)
          [0 := \<lparr>task_name = 3, time = 10, is_running = False\<rparr>,
           2 := \<lparr>task_name = NULL, time = 0, is_running = False\<rparr>] \<and>
   console (end_calc_accumulated_info
     \<lparr>s_accumulated_infos =
        (replicate 16 \<lparr>task_name = NULL, time = 0, is_running = False\<rparr>)
          [0 := \<lparr>task_name = 3, time = 10, is_running = True\<rparr>,
           2 := \<lparr>task_name = 7, time = 100, is_running = False\<rparr>],
      console = []\<rparr>) = [] \<and>
   get_accumulated_info 7 (end_calc_accumulated_info
     \<lparr>s_accumulated_infos =
        (replicate 16 \<lparr>task_name = NULL, time = 0, is_running = False\<rparr>)
          [0 := \<lparr>task_name = 3, time = 10, is_running = True\<rparr>,
           2 := \<lparr>task_name = 7, time = 100, is_running = False\<rparr>],
      console = []\<rparr>) = None"
proof -
  let ?s = "\<lparr>s_accumulated_infos =
        (replicate 16 \<lparr>task_name = NULL, time = 0, is_running = False\<rparr>)
          [0 := \<lparr>task_name = 3, time = 10, is_running = True\<rparr>,
           2 := \<lparr>task_name = 7, time = 100, is_running = False\<rparr>],
      console = []\<rparr>"
  have len: "length (s_accumulated_infos ?s) = ACCUMULATED_INFO_NUM"
    by (simp add: ACCUMULATED_INFO_NUM_def)
  have unseen: "(7 :: addr) \<noteq> NULL \<and>
      (\<forall>i<ACCUMULATED_INFO_NUM. task_name (s_accumulated_infos ?s ! i) = 7 \<longrightarrow>
          \<not> is_running (s_accumulated_infos ?s ! i))"
    by (simp add: ACCUMULATED_INFO_NUM_def nth_list_update)
  from end_calc_accumulated_info_evicts [OF len] unseen
  have "s_accumulated_infos (end_calc_accumulated_info ?s) =
          map (\<lambda>e. if is_running e then e\<lparr>is_running := False\<rparr>
                    else e\<lparr>task_name := NULL, time := 0\<rparr>) (s_accumulated_infos ?s)"
    and "console (end_calc_accumulated_info ?s) = console ?s"
    and "get_accumulated_info 7 (end_calc_accumulated_info ?s) = None"
    by blast+
  then show ?thesis by (simp add: map_update)
qed

text \<open>
  C7. Recording a time of 0 for a name that has a record changes nothing but the flag of
  that record (the first slot holding the name), which becomes set: every stored time is
  as it was.
\<close>

theorem set_accumulated_info_zero:
  assumes "length (s_accumulated_infos s) = ACCUMULATED_INFO_NUM"
    and "i < ACCUMULATED_INFO_NUM"
    and "task_name (s_accumulated_infos s ! i) = task_name info"
    and "\<forall>k<i. task_name (s_accumulated_infos s ! k) \<noteq> task_name info"
    and "time info = 0"
  shows "set_accumulated_info info s =
           s\<lparr>s_accumulated_infos := (s_accumulated_infos s)
              [i := (s_accumulated_infos s ! i)\<lparr>is_running := True\<rparr>]\<rparr>"
  using assms set_loop_found [of 0 i s info 255] by (simp add: set_accumulated_info_def)

theorem set_accumulated_info_zero_witness:
  "set_accumulated_info \<lparr>task_name = 7, time = 0, is_running = False\<rparr>
     \<lparr>s_accumulated_infos =
        (replicate 16 \<lparr>task_name = NULL, time = 0, is_running = False\<rparr>)
          [0 := \<lparr>task_name = 3, time = 10, is_running = False\<rparr>,
           2 := \<lparr>task_name = 7, time = 100, is_running = False\<rparr>],
      console = []\<rparr> =
   \<lparr>s_accumulated_infos =
        (replicate 16 \<lparr>task_name = NULL, time = 0, is_running = False\<rparr>)
          [0 := \<lparr>task_name = 3, time = 10, is_running = False\<rparr>,
           2 := \<lparr>task_name = 7, time = 100, is_running = True\<rparr>],
      console = []\<rparr>"
  using set_accumulated_info_zero
    [of "\<lparr>s_accumulated_infos =
        (replicate 16 \<lparr>task_name = NULL, time = 0, is_running = False\<rparr>)
          [0 := \<lparr>task_name = 3, time = 10, is_running = False\<rparr>,
           2 := \<lparr>task_name = 7, time = 100, is_running = False\<rparr>],
      console = []\<rparr>" 2
        "\<lparr>task_name = 7, time = 0, is_running = False\<rparr>"]
  by (simp add: ACCUMULATED_INFO_NUM_def nth_list_update)

text \<open>
  C8. Starting a stopwatch that is started and stopping one that is stopped leave the
  handler as it is (name, time, start and state) and log one error line.
\<close>

theorem stopwatch_misuse:
  "(state h = STATS_MEASURE_START \<longrightarrow>
      stats_run_time_start (Some h) now =
        (Some h, [ESP_LOGE ''run time measurement is already started''])) \<and>
   (state h = STATS_MEASURE_STOP \<longrightarrow>
      stats_run_time_stop (Some h) now =
        (Some h, [ESP_LOGE ''run time measurement is not started'']))"
  by (simp add: stats_run_time_start_def stats_run_time_stop_def)

theorem stopwatch_misuse_witness:
  "stats_run_time_start (Some \<lparr>name = ''spin'', time = 5, start = 3, state = STATS_MEASURE_START\<rparr>) 9 =
     (Some \<lparr>name = ''spin'', time = 5, start = 3, state = STATS_MEASURE_START\<rparr>,
      [ESP_LOGE ''run time measurement is already started'']) \<and>
   stats_run_time_stop (Some \<lparr>name = ''spin'', time = 5, start = 3, state = STATS_MEASURE_STOP\<rparr>) 9 =
     (Some \<lparr>name = ''spin'', time = 5, start = 3, state = STATS_MEASURE_STOP\<rparr>,
      [ESP_LOGE ''run time measurement is not started''])"
  using stopwatch_misuse [of "\<lparr>name = ''spin'', time = 5, start = 3, state = STATS_MEASURE_START\<rparr>" 9]
    stopwatch_misuse [of "\<lparr>name = ''spin'', time = 5, start = 3, state = STATS_MEASURE_STOP\<rparr>" 9]
  by simp

text \<open>
  C9. On a table of 16 slots in which no name other than \<^verbatim>\<open>NULL\<close> occurs twice,
  \<^verbatim>\<open>set_accumulated_info\<close> (for any \<open>info\<close>, so for any with a name that is not
  \<^verbatim>\<open>NULL\<close>), \<^verbatim>\<open>end_calc_accumulated_info\<close> and \<^verbatim>\<open>stats_reset_accumulated_infos\<close> each
  give a table of 16 slots in which no name other than \<^verbatim>\<open>NULL\<close> occurs twice.
\<close>

theorem unique_names_invariant:
  assumes "length (s_accumulated_infos s) = ACCUMULATED_INFO_NUM"
    and "unique_names (s_accumulated_infos s)"
  shows "unique_names (s_accumulated_infos (set_accumulated_info info s)) \<and>
         unique_names (s_accumulated_infos (end_calc_accumulated_info s)) \<and>
         unique_names (s_accumulated_infos (stats_reset_accumulated_infos s)) \<and>
         length (s_accumulated_infos (set_accumulated_info info s)) = ACCUMULATED_INFO_NUM \<and>
         length (s_accumulated_infos (end_calc_accumulated_info s)) = ACCUMULATED_INFO_NUM \<and>
         length (s_accumulated_infos (stats_reset_accumulated_infos s)) = ACCUMULATED_INFO_NUM"
  using assms
  by (simp add: unique_names_set unique_names_end_calc unique_names_reset
      length_set_accumulated_info length_end_calc_loop length_reset_loop
      end_calc_accumulated_info_def stats_reset_accumulated_infos_def)

theorem unique_names_invariant_witness:
  "unique_names (s_accumulated_infos
     \<lparr>s_accumulated_infos =
        (replicate 16 \<lparr>task_name = NULL, time = 0, is_running = False\<rparr>)
          [0 := \<lparr>task_name = 3, time = 10, is_running = False\<rparr>,
           2 := \<lparr>task_name = 7, time = 100, is_running = False\<rparr>],
      console = []\<rparr>) \<and>
   unique_names (s_accumulated_infos (set_accumulated_info \<lparr>task_name = 9, time = 5, is_running = False\<rparr>
     \<lparr>s_accumulated_infos =
        (replicate 16 \<lparr>task_name = NULL, time = 0, is_running = False\<rparr>)
          [0 := \<lparr>task_name = 3, time = 10, is_running = False\<rparr>,
           2 := \<lparr>task_name = 7, time = 100, is_running = False\<rparr>],
      console = []\<rparr>)) \<and>
   unique_names (s_accumulated_infos (end_calc_accumulated_info
     \<lparr>s_accumulated_infos =
        (replicate 16 \<lparr>task_name = NULL, time = 0, is_running = False\<rparr>)
          [0 := \<lparr>task_name = 3, time = 10, is_running = False\<rparr>,
           2 := \<lparr>task_name = 7, time = 100, is_running = False\<rparr>],
      console = []\<rparr>)) \<and>
   unique_names (s_accumulated_infos (stats_reset_accumulated_infos
     \<lparr>s_accumulated_infos =
        (replicate 16 \<lparr>task_name = NULL, time = 0, is_running = False\<rparr>)
          [0 := \<lparr>task_name = 3, time = 10, is_running = False\<rparr>,
           2 := \<lparr>task_name = 7, time = 100, is_running = False\<rparr>],
      console = []\<rparr>))"
proof -
  let ?s = "\<lparr>s_accumulated_infos =
        (replicate 16 \<lparr>task_name = NULL, time = 0, is_running = False\<rparr>)
          [0 := \<lparr>task_name = 3, time = 10, is_running = False\<rparr>,
           2 := \<lparr>task_name = 7, time = 100, is_running = False\<rparr>],
      console = []\<rparr>"
  have len: "length (s_accumulated_infos ?s) = ACCUMULATED_INFO_NUM"
    by (simp add: ACCUMULATED_INFO_NUM_def)
  have u: "unique_names (s_accumulated_infos ?s)"
    by (auto simp: unique_names_def nth_list_update split: if_splits)
  from unique_names_invariant [OF len u, of "\<lparr>task_name = 9, time = 5, is_running = False\<rparr>"] u
  show ?thesis by simp
qed

text \<open>
  C10. When no slot holds the name of \<open>info\<close> and no slot is free,
  \<^verbatim>\<open>set_accumulated_info\<close> leaves the whole table as it is: the name, the time and the
  flag of every slot.
\<close>

theorem set_accumulated_info_full_unchanged:
  assumes "length (s_accumulated_infos s) = ACCUMULATED_INFO_NUM"
    and "\<forall>k<ACCUMULATED_INFO_NUM.
           task_name (s_accumulated_infos s ! k) \<noteq> task_name info \<and>
           task_name (s_accumulated_infos s ! k) \<noteq> NULL"
  shows "s_accumulated_infos (set_accumulated_info info s) = s_accumulated_infos s"
  using assms set_loop_full [of 0 s info] by (simp add: set_accumulated_info_def)

theorem set_accumulated_info_full_unchanged_witness:
  "s_accumulated_infos
     (set_accumulated_info \<lparr>task_name = 50, time = 7, is_running = False\<rparr>
        \<lparr>s_accumulated_infos =
        map (\<lambda>n. \<lparr>task_name = Suc n, time = 0, is_running = False\<rparr>) [0..<16],
      console = []\<rparr>) =
   map (\<lambda>n. \<lparr>task_name = Suc n, time = 0, is_running = False\<rparr>) [0..<16]"
  using set_accumulated_info_full_unchanged
    [of "\<lparr>s_accumulated_infos =
        map (\<lambda>n. \<lparr>task_name = Suc n, time = 0, is_running = False\<rparr>) [0..<16],
      console = []\<rparr>"
        "\<lparr>task_name = 50, time = 7, is_running = False\<rparr>"]
  by (simp add: ACCUMULATED_INFO_NUM_def)

end
